theory Spec2Isabelle
  imports Complex_Main "HOL-Library.Word" "HOL-Library.Sublist"
begin

section \<open>Data model (src/types/property.ts, prisma/schema.prisma)\<close>

text \<open>
  A JavaScript \<open>number\<close> is modelled as a real: the pipeline only compares numbers with
  constants, tests them with \<open>Number.isInteger\<close> and rounds them. \<open>NaN\<close> and the
  infinities have no counterpart (the zod schema admits no \<open>NaN\<close>).
  A value that may be \<open>undefined\<close> or \<open>null\<close> is an \<open>option\<close>. The validator tests
  the required fields against \<open>null\<close> itself, so they are options here too.
\<close>

type_synonym number = real

record ListingInput =
  listDate :: string
  daysOnMarket :: "number option"
  description :: "string option"
  keyFeatures :: "string list option"
  agentName :: "string option"
  agentPhone :: "string option"
  agentEmail :: "string option"
  brokerage :: "string option"
  openHouseDates :: "string list option"
  tourAvailable :: "bool option"
  virtualTourUrl :: "string option"
  originalPrice :: "number option"
  priceChanges :: "string list option"

record FeaturesInput =
  flooringTypes :: "string list option"
  kitchenFeatures :: "string list option"
  bathroomFeatures :: "string list option"
  fireplace :: "bool option"
  fireplaceCount :: "number option"
  laundryFeatures :: "string option"
  cooling :: "string option"
  heating :: "string option"
  yardFeatures :: "string list option"
  pool :: "bool option"
  spa :: "bool option"
  garageType :: "string option"
  securityFeatures :: "string list option"
  accessibilityFeatures :: "string list option"
  greenFeatures :: "string list option"
  schoolDistrict :: "string option"
  walkabilityScore :: "number option"
  transitScore :: "number option"
  bikeScore :: "number option"

record PhotoInput =
  caption :: "string option"
  roomType :: "string option"
  isPrimary :: "bool option"
  sortOrder :: "number option"

record GeneratedProperty =
  zpid :: "string option"
  address :: "string option"
  zipCode :: "string option"
  latitude :: "number option"
  longitude :: "number option"
  bedrooms :: "number option"
  bathrooms :: "number option"
  sqft :: "number option"
  lotSizeSqft :: "number option"
  yearBuilt :: "number option"
  propertyType :: "string option"
  stories :: "number option"
  garageSpaces :: "number option"
  parkingSpaces :: "number option"
  price :: "number option"
  pricePerSqft :: "number option"
  hoaFee :: "number option"
  propertyTax :: "number option"
  status :: "string option"
  listingType :: "string option"
  listing :: "ListingInput option"
  features :: "FeaturesInput option"
  photos :: "PhotoInput list option"

text \<open>
  The rows of the four tables of prisma/schema.prisma. A column left out of a
  \<open>create\<close> call takes its \<open>@default\<close>, or \<open>NULL\<close> when it has none. List-valued
  columns hold the JSON text of the list; the model keeps the list. The time stamps and
  the row ids of the three dependent tables are read by nothing in the pipeline and are
  left out.
\<close>

record PropertyRow =
  p_id :: nat
  p_zpid :: "string option"
  p_address :: "string option"
  p_city :: string
  p_state :: string
  p_zipCode :: "string option"
  p_latitude :: "number option"
  p_longitude :: "number option"
  p_bedrooms :: "number option"
  p_bathrooms :: "number option"
  p_sqft :: "number option"
  p_lotSizeSqft :: "number option"
  p_yearBuilt :: "number option"
  p_propertyType :: "string option"
  p_stories :: "number option"
  p_garageSpaces :: "number option"
  p_parkingSpaces :: "number option"
  p_price :: "number option"
  p_pricePerSqft :: "number option"
  p_hoaFee :: "number option"
  p_propertyTax :: "number option"
  p_status :: string
  p_listingType :: string

record ListingRow =
  l_propertyId :: nat
  l_listDate :: string
  l_daysOnMarket :: number
  l_description :: "string option"
  l_keyFeatures :: "string list"
  l_agentName :: "string option"
  l_agentPhone :: "string option"
  l_agentEmail :: "string option"
  l_brokerage :: "string option"
  l_openHouseDates :: "string list"
  l_tourAvailable :: bool
  l_virtualTourUrl :: "string option"
  l_originalPrice :: "number option"
  l_priceChanges :: "string list"

record PropertyFeaturesRow =
  f_propertyId :: nat
  f_flooringTypes :: "string list"
  f_kitchenFeatures :: "string list"
  f_bathroomFeatures :: "string list"
  f_fireplace :: bool
  f_fireplaceCount :: number
  f_laundryFeatures :: "string option"
  f_cooling :: "string option"
  f_heating :: "string option"
  f_yardFeatures :: "string list"
  f_pool :: bool
  f_spa :: bool
  f_garageType :: "string option"
  f_securityFeatures :: "string list"
  f_accessibilityFeatures :: "string list"
  f_greenFeatures :: "string list"
  f_schoolDistrict :: string
  f_walkabilityScore :: number
  f_transitScore :: number
  f_bikeScore :: number

text \<open>
  Modelled from the spec: the resolved image URL of a photo, nullable until a separate
  enrichment step fills it. That step is scripts/fetch-property-photos.ts: it selects the
  photo rows whose \<open>imageUrl\<close> is null and writes \<open>imageUrl\<close>, \<open>imageAlt\<close>,
  \<open>photographerName\<close> and \<open>photographerUsername\<close>. prisma/schema.prisma declares
  none of the four; they are nullable columns without a default here. The other columns
  are those of the schema.
\<close>

record PropertyPhotoRow =
  ph_propertyId :: nat
  ph_photoUrl :: "string option"
  ph_caption :: "string option"
  ph_roomType :: "string option"
  ph_isPrimary :: bool
  ph_sortOrder :: "number option"
  ph_imageUrl :: "string option"
  ph_imageAlt :: "string option"
  ph_photographerName :: "string option"
  ph_photographerUsername :: "string option"

record Store =
  nextId :: nat
  tbl_property :: "PropertyRow list"
  tbl_listing :: "ListingRow list"
  tbl_propertyFeatures :: "PropertyFeaturesRow list"
  tbl_propertyPhoto :: "PropertyPhotoRow list"


section \<open>Insertion Service (class PropertyDataInserter)\<close>

subsection \<open>validatePropertyData\<close>

definition isInteger :: "number \<Rightarrow> bool" where
  \<comment> \<open>\<open>Number.isInteger\<close>\<close>
  "isInteger x = (of_int \<lfloor>x\<rfloor> = x)"

definition validatePropertyData :: "GeneratedProperty \<Rightarrow> bool" where
  "validatePropertyData propData =
    (if zpid propData = None \<or> address propData = None \<or> zipCode propData = None
        \<or> latitude propData = None \<or> longitude propData = None
        \<or> bedrooms propData = None \<or> bathrooms propData = None
        \<or> sqft propData = None \<or> yearBuilt propData = None
        \<or> propertyType propData = None \<or> price propData = None then False
     else if the (bedrooms propData) \<le> 0 \<or> \<not> isInteger (the (bedrooms propData)) then False
     else if the (bathrooms propData) \<le> 0 then False
     else if the (sqft propData) \<le> 0 \<or> \<not> isInteger (the (sqft propData)) then False
     else if the (price propData) \<le> 0 \<or> \<not> isInteger (the (price propData)) then False
     else if the (yearBuilt propData) < 1800 \<or> the (yearBuilt propData) > 2024 then False
     else if the (latitude propData) < 37.8 \<or> the (latitude propData) > 37.9 then False
     else if the (longitude propData) < - 122.3 \<or> the (longitude propData) > - 122.2 then False
     else True)"

subsection \<open>The store's operations\<close>

text \<open>
  A call into the store can fail for reasons outside the program (connection lost, a
  value the driver refuses). Which calls fail is an input of the model: the fault that
  meets the \<open>k\<close>-th call of \<open>insertSingleProperty\<close>.
\<close>

datatype db_fault = NoFault | FindUniqueThrows | TransactionThrows

datatype error = PrismaError | ApiError | MissingApiKey

definition findUnique :: "db_fault \<Rightarrow> Store \<Rightarrow> string option \<Rightarrow> error + PropertyRow option" where
  \<comment> \<open>\<open>prisma.property.findUnique({ where: { zpid } })\<close>\<close>
  "findUnique fault store z =
    (if fault = FindUniqueThrows then Inl PrismaError
     else Inr (find (\<lambda>row. p_zpid row = z) (tbl_property store)))"

definition orElse :: "'a option \<Rightarrow> 'a \<Rightarrow> 'a" where
  \<comment> \<open>\<open>a ?? b\<close>\<close>
  "orElse a b = (case a of None \<Rightarrow> b | Some v \<Rightarrow> v)"

definition orString :: "string option \<Rightarrow> string \<Rightarrow> string" where
  \<comment> \<open>\<open>a || b\<close> on strings: the empty string is falsy\<close>
  "orString a b = (case a of None \<Rightarrow> b | Some v \<Rightarrow> if v = [] then b else v)"

definition orNumber :: "number option \<Rightarrow> number \<Rightarrow> number" where
  \<comment> \<open>\<open>a || b\<close> on numbers: zero is falsy\<close>
  "orNumber a b = (case a of None \<Rightarrow> b | Some v \<Rightarrow> if v = 0 then b else v)"

definition orBool :: "bool option \<Rightarrow> bool \<Rightarrow> bool" where
  \<comment> \<open>\<open>a || b\<close> on booleans\<close>
  "orBool a b = (case a of None \<Rightarrow> b | Some v \<Rightarrow> v \<or> b)"

definition orList :: "'a list option \<Rightarrow> 'a list" where
  \<comment> \<open>\<open>a || []\<close>: every array is truthy\<close>
  "orList a = (case a of None \<Rightarrow> [] | Some v \<Rightarrow> v)"

definition propertyRow :: "nat \<Rightarrow> GeneratedProperty \<Rightarrow> PropertyRow" where
  "propertyRow newId propData =
    \<lparr> p_id = newId,
      p_zpid = zpid propData,
      p_address = address propData,
      p_city = ''Oakland'',
      p_state = ''CA'',
      p_zipCode = zipCode propData,
      p_latitude = latitude propData,
      p_longitude = longitude propData,
      p_bedrooms = bedrooms propData,
      p_bathrooms = bathrooms propData,
      p_sqft = sqft propData,
      p_lotSizeSqft = lotSizeSqft propData,
      p_yearBuilt = yearBuilt propData,
      p_propertyType = propertyType propData,
      p_stories = Some (orElse (stories propData) 1),
      p_garageSpaces = Some (orElse (garageSpaces propData) 0),
      p_parkingSpaces = Some (orElse (parkingSpaces propData) 0),
      p_price = price propData,
      p_pricePerSqft = pricePerSqft propData,
      p_hoaFee = Some (orElse (hoaFee propData) 0),
      p_propertyTax = Some (orElse (propertyTax propData) 0),
      p_status = orString (status propData) ''For Sale'',
      p_listingType = orString (listingType propData) ''Resale'' \<rparr>"

definition listingRow :: "nat \<Rightarrow> GeneratedProperty \<Rightarrow> ListingInput \<Rightarrow> ListingRow" where
  \<comment> \<open>the list date is kept as its text; a text that \<open>new Date\<close> cannot read makes
      the driver throw, which is one of the faults of the transaction\<close>
  "listingRow pid propData l =
    \<lparr> l_propertyId = pid,
      l_listDate = listDate l,
      l_daysOnMarket = orNumber (daysOnMarket l) 0,
      l_description = description l,
      l_keyFeatures = orList (keyFeatures l),
      l_agentName = agentName l,
      l_agentPhone = agentPhone l,
      l_agentEmail = agentEmail l,
      l_brokerage = brokerage l,
      l_openHouseDates = orList (openHouseDates l),
      l_tourAvailable = orElse (tourAvailable l) True,
      l_virtualTourUrl = virtualTourUrl l,
      l_originalPrice =
        (case originalPrice l of
           None \<Rightarrow> price propData
         | Some v \<Rightarrow> if v = 0 then price propData else Some v),
      l_priceChanges = orList (priceChanges l) \<rparr>"

definition propertyFeaturesRow :: "nat \<Rightarrow> FeaturesInput \<Rightarrow> PropertyFeaturesRow" where
  "propertyFeaturesRow pid f =
    \<lparr> f_propertyId = pid,
      f_flooringTypes = orList (flooringTypes f),
      f_kitchenFeatures = orList (kitchenFeatures f),
      f_bathroomFeatures = orList (bathroomFeatures f),
      f_fireplace = orBool (fireplace f) False,
      f_fireplaceCount = orNumber (fireplaceCount f) 0,
      f_laundryFeatures = laundryFeatures f,
      f_cooling = cooling f,
      f_heating = heating f,
      f_yardFeatures = orList (yardFeatures f),
      f_pool = orBool (pool f) False,
      f_spa = orBool (spa f) False,
      f_garageType = garageType f,
      f_securityFeatures = orList (securityFeatures f),
      f_accessibilityFeatures = orList (accessibilityFeatures f),
      f_greenFeatures = orList (greenFeatures f),
      f_schoolDistrict = orString (schoolDistrict f) ''Oakland Unified School District'',
      f_walkabilityScore = orNumber (walkabilityScore f) 80,
      f_transitScore = orNumber (transitScore f) 85,
      f_bikeScore = orNumber (bikeScore f) 70 \<rparr>"

function showNat :: "nat \<Rightarrow> string" where
  \<comment> \<open>the decimal digits a template literal prints for a non-negative integer\<close>
  "showNat n =
    (if n < 10 then [''0123456789'' ! n]
     else showNat (n div 10) @ [''0123456789'' ! (n mod 10)])"
  by pat_completeness auto
termination
  by (relation "measure id") auto

definition placeholderUrl :: "string option \<Rightarrow> nat \<Rightarrow> string" where
  \<comment> \<open>\<open>`https://placeholder.com/property_${propData.zpid}_photo_${i + 1}.jpg`\<close>\<close>
  "placeholderUrl z i =
    ''https://placeholder.com/property_'' @ orElse z ''undefined'' @ ''_photo_''
      @ showNat (i + 1) @ ''.jpg''"

definition photoRow :: "nat \<Rightarrow> string option \<Rightarrow> nat \<Rightarrow> PhotoInput \<Rightarrow> PropertyPhotoRow" where
  \<comment> \<open>\<open>tx.propertyPhoto.create\<close> of lines 495-504: its \<open>data\<close> names six columns,
      the four of the enrichment step are not among them and stay null\<close>
  "photoRow pid z i photo =
    \<lparr> ph_propertyId = pid,
      ph_photoUrl = Some (placeholderUrl z i),
      ph_caption = caption photo,
      ph_roomType = roomType photo,
      ph_isPrimary = orElse (isPrimary photo) (i = 0),
      ph_sortOrder = Some (orElse (sortOrder photo) (of_nat i)),
      ph_imageUrl = None,
      ph_imageAlt = None,
      ph_photographerName = None,
      ph_photographerUsername = None \<rparr>"

fun photoRows :: "nat \<Rightarrow> string option \<Rightarrow> nat \<Rightarrow> PhotoInput list \<Rightarrow> PropertyPhotoRow list" where
  \<comment> \<open>the loop \<open>for (let i = 0; i < propData.photos.length; i++)\<close>, entered at index \<open>i\<close>\<close>
  "photoRows pid z i [] = []"
| "photoRows pid z i (photo # rest) = photoRow pid z i photo # photoRows pid z (Suc i) rest"

definition transaction :: "db_fault \<Rightarrow> Store \<Rightarrow> GeneratedProperty \<Rightarrow> error + Store" where
  \<comment> \<open>the body of \<open>prisma.$transaction\<close>: all four writes, or none when it throws\<close>
  "transaction fault store propData =
    (if fault = TransactionThrows then Inl PrismaError
     else
       let property = propertyRow (nextId store) propData;
           listings = (case listing propData of
                         None \<Rightarrow> []
                       | Some l \<Rightarrow> [listingRow (p_id property) propData l]);
           featureRows = (case features propData of
                            None \<Rightarrow> []
                          | Some f \<Rightarrow> [propertyFeaturesRow (p_id property) f]);
           photoRws = (case photos propData of
                         None \<Rightarrow> []
                       | Some phs \<Rightarrow> photoRows (p_id property) (zpid propData) 0 phs)
       in Inr \<lparr> nextId = Suc (nextId store),
                tbl_property = tbl_property store @ [property],
                tbl_listing = tbl_listing store @ listings,
                tbl_propertyFeatures = tbl_propertyFeatures store @ featureRows,
                tbl_propertyPhoto = tbl_propertyPhoto store @ photoRws \<rparr>)"

subsection \<open>insertSingleProperty and insertProperties\<close>

definition insertSingleProperty :: "db_fault \<Rightarrow> Store \<Rightarrow> GeneratedProperty \<Rightarrow> Store \<times> bool" where
  \<comment> \<open>the \<open>catch\<close> of lines 511-514 turns every throw into \<open>false\<close>\<close>
  "insertSingleProperty fault store propData =
    (if \<not> validatePropertyData propData then (store, False)
     else case findUnique fault store (zpid propData) of
         Inl e \<Rightarrow> (store, False)
       | Inr (Some existing) \<Rightarrow> (store, False)
       | Inr None \<Rightarrow>
           (case transaction fault store propData of
              Inl e \<Rightarrow> (store, False)
            | Inr store' \<Rightarrow> (store', True)))"

fun insertLoop ::
  "(nat \<Rightarrow> db_fault) \<Rightarrow> nat \<Rightarrow> Store \<Rightarrow> nat \<Rightarrow> GeneratedProperty list \<Rightarrow> Store \<times> nat \<times> nat" where
  \<comment> \<open>\<open>for (const propData of propertiesData)\<close>; \<open>k\<close> counts the calls of
      \<open>insertSingleProperty\<close> made so far in the run. \<open>insertSingleProperty\<close> catches
      what it meets, so the \<open>catch\<close> of lines 383-386 is never entered\<close>
  "insertLoop faults k store insertedCount [] = (store, insertedCount, k)"
| "insertLoop faults k store insertedCount (propData # rest) =
    (case insertSingleProperty (faults k) store propData of
       (store', True) \<Rightarrow> insertLoop faults (Suc k) store' (insertedCount + 1) rest
     | (store', False) \<Rightarrow> insertLoop faults (Suc k) store' insertedCount rest)"

definition insertProperties ::
  "(nat \<Rightarrow> db_fault) \<Rightarrow> nat \<Rightarrow> Store \<Rightarrow> GeneratedProperty list \<Rightarrow> Store \<times> nat \<times> nat" where
  \<comment> \<open>returns the store, \<open>insertedCount\<close> and the advanced call counter\<close>
  "insertProperties faults k store propertiesData = insertLoop faults k store 0 propertiesData"

section \<open>Sample data\<close>

definition samplePhotos :: "PhotoInput list" where
  "samplePhotos =
    [\<lparr> caption = Some ''Front'', roomType = None, isPrimary = None, sortOrder = None \<rparr>,
     \<lparr> caption = None, roomType = Some ''Kitchen'', isPrimary = None, sortOrder = Some 7 \<rparr>]"

definition sampleProperty :: GeneratedProperty where
  "sampleProperty =
    \<lparr> zpid = Some ''12345678'',
      address = Some ''5432 College Ave'',
      zipCode = Some ''94618'',
      latitude = Some 37.85,
      longitude = Some (- 122.25),
      bedrooms = Some 3,
      bathrooms = Some 2.5,
      sqft = Some 1850,
      lotSizeSqft = None,
      yearBuilt = Some 1925,
      propertyType = Some ''single_family'',
      stories = None,
      garageSpaces = None,
      parkingSpaces = None,
      price = Some 1650000,
      pricePerSqft = None,
      hoaFee = None,
      propertyTax = None,
      status = None,
      listingType = None,
      listing = None,
      features = None,
      photos = Some samplePhotos \<rparr>"

definition emptyStore :: Store where
  "emptyStore =
    \<lparr> nextId = 1, tbl_property = [], tbl_listing = [], tbl_propertyFeatures = [],
      tbl_propertyPhoto = [] \<rparr>"

section \<open>The conditions the specification names\<close>

definition missingRequired :: "GeneratedProperty \<Rightarrow> bool" where
  "missingRequired p =
    (zpid p = None \<or> address p = None \<or> zipCode p = None \<or> latitude p = None
     \<or> longitude p = None \<or> bedrooms p = None \<or> bathrooms p = None \<or> sqft p = None
     \<or> yearBuilt p = None \<or> propertyType p = None \<or> price p = None)"

definition notPositiveInteger :: "number option \<Rightarrow> bool" where
  \<comment> \<open>present, and non-positive or not an integer\<close>
  "notPositiveInteger v = (case v of None \<Rightarrow> False | Some x \<Rightarrow> x \<le> 0 \<or> x \<notin> \<int>)"

definition outside :: "number \<Rightarrow> number \<Rightarrow> number option \<Rightarrow> bool" where
  \<comment> \<open>present, and outside the closed interval from \<open>lo\<close> to \<open>hi\<close>\<close>
  "outside lo hi v = (case v of None \<Rightarrow> False | Some x \<Rightarrow> x < lo \<or> hi < x)"

definition mustBeRejected :: "number \<Rightarrow> GeneratedProperty \<Rightarrow> bool" where
  "mustBeRejected currentYear p =
    (missingRequired p
     \<or> notPositiveInteger (bedrooms p) \<or> notPositiveInteger (sqft p)
     \<or> notPositiveInteger (price p)
     \<or> (case bathrooms p of None \<Rightarrow> False | Some x \<Rightarrow> x \<le> 0)
     \<or> outside 1800 currentYear (yearBuilt p)
     \<or> outside 37.8 37.9 (latitude p)
     \<or> outside (- 122.3) (- 122.2) (longitude p))"

definition zpidExists :: "Store \<Rightarrow> string option \<Rightarrow> bool" where
  \<comment> \<open>a row of the property table carries the identifier\<close>
  "zpidExists store z = (\<exists>row \<in> set (tbl_property store). p_zpid row = z)"

definition rowsWithZpid :: "Store \<Rightarrow> string option \<Rightarrow> nat" where
  "rowsWithZpid store z = length (filter (\<lambda>row. p_zpid row = z) (tbl_property store))"

fun outcomes :: "(nat \<Rightarrow> db_fault) \<Rightarrow> nat \<Rightarrow> Store \<Rightarrow> GeneratedProperty list \<Rightarrow> bool list" where
  \<comment> \<open>what \<open>insertSingleProperty\<close> returns for each record, the records taken in order
      and each one meeting the store its predecessors left\<close>
  "outcomes faults k store [] = []"
| "outcomes faults k store (propData # rest) =
    snd (insertSingleProperty (faults k) store propData)
      # outcomes faults (Suc k) (fst (insertSingleProperty (faults k) store propData)) rest"

definition sampleStored :: Store where
  "sampleStored = fst (insertSingleProperty NoFault emptyStore sampleProperty)"

definition mixedBatch :: "GeneratedProperty list" where
  \<comment> \<open>an invalid record, a good one, its duplicate, one whose transaction throws, a good one\<close>
  "mixedBatch =
    [sampleProperty\<lparr>bedrooms := Some 0\<rparr>,
     sampleProperty,
     sampleProperty,
     sampleProperty\<lparr>zpid := Some ''87654321''\<rparr>,
     sampleProperty\<lparr>zpid := Some ''11112222''\<rparr>]"

definition mixedFaults :: "nat \<Rightarrow> db_fault" where
  "mixedFaults k = (if k = 3 then TransactionThrows else NoFault)"

section \<open>Batch Generator: reading the completion (generatePropertyBatchInternal)\<close>

text \<open>
  A JavaScript string is a sequence of UTF-16 code units. \<open>String.prototype.trim\<close> and
  the class \<open>\s\<close> of a regular expression use the same set of code units: the
  ECMAScript WhiteSpace and LineTerminator productions.
\<close>

type_synonym jsstring = "16 word list"

definition isWhiteSpace :: "16 word \<Rightarrow> bool" where
  "isWhiteSpace c =
    (c = 0x09 \<or> c = 0x0A \<or> c = 0x0B \<or> c = 0x0C \<or> c = 0x0D \<or> c = 0x20 \<or> c = 0xA0
     \<or> c = 0x1680 \<or> (0x2000 \<le> c \<and> c \<le> 0x200A) \<or> c = 0x2028 \<or> c = 0x2029
     \<or> c = 0x202F \<or> c = 0x205F \<or> c = 0x3000 \<or> c = 0xFEFF)"

definition trim :: "jsstring \<Rightarrow> jsstring" where
  "trim s = rev (dropWhile isWhiteSpace (rev (dropWhile isWhiteSpace s)))"

definition fence :: jsstring where
  \<comment> \<open>three backticks\<close>
  "fence = [0x60, 0x60, 0x60]"

definition fenceJson :: jsstring where
  \<comment> \<open>three backticks and the letters j, s, o, n\<close>
  "fenceJson = [0x60, 0x60, 0x60, 0x6A, 0x73, 0x6F, 0x6E]"

definition startsWith :: "jsstring \<Rightarrow> jsstring \<Rightarrow> bool" where
  "startsWith s lit = prefix lit s"

definition replaceLeading :: "jsstring \<Rightarrow> jsstring \<Rightarrow> jsstring" where
  \<comment> \<open>\<open>s.replace(/^LIT\s*/, '')\<close>: the literal at the start and the longest run of
      white space after it are removed; without the literal there is no match\<close>
  "replaceLeading lit s =
    (if prefix lit s then dropWhile isWhiteSpace (drop (length lit) s) else s)"

definition replaceTrailingFence :: "jsstring \<Rightarrow> jsstring" where
  \<comment> \<open>\<open>s.replace(/\s*```$/, '')\<close>: the leftmost match starts where the run of white
      space before the closing three backticks starts; without them there is no match\<close>
  "replaceTrailingFence s =
    (if suffix fence s
     then rev (dropWhile isWhiteSpace (rev (take (length s - length fence) s)))
     else s)"

definition stripCodeFences :: "jsstring \<Rightarrow> jsstring" where
  \<comment> \<open>lines 119-125: the value of \<open>jsonContent\<close> that reaches \<open>JSON.parse\<close>\<close>
  "stripCodeFences content =
    (let jsonContent = trim content
     in if startsWith jsonContent fenceJson
        then replaceTrailingFence (replaceLeading fenceJson jsonContent)
        else if startsWith jsonContent fence
        then replaceTrailingFence (replaceLeading fence jsonContent)
        else jsonContent)"

text \<open>
  \<open>JSON.parse\<close> and the schema's \<open>parse\<close> are library functions: parameters here, with
  \<open>None\<close> for the exception each can throw. The completion request either throws or
  delivers the content of the first choice, if there is one.
\<close>

definition generatePropertyBatchInternal ::
  "(jsstring \<Rightarrow> 'j option) \<Rightarrow> ('j \<Rightarrow> GeneratedProperty list option)
    \<Rightarrow> error + jsstring option \<Rightarrow> error + GeneratedProperty list" where
  "generatePropertyBatchInternal jsonParse schemaParse response =
    (case response of
       Inl e \<Rightarrow> Inl e
     | Inr None \<Rightarrow> Inr []
     | Inr (Some content) \<Rightarrow>
         if content = [] then Inr []
         else (case jsonParse (stripCodeFences content) of
                 None \<Rightarrow> Inr []
               | Some parsedData \<Rightarrow>
                   (case schemaParse parsedData of
                      None \<Rightarrow> Inr []
                    | Some properties \<Rightarrow> Inr properties)))"

definition jsonValueStarts :: "16 word list" where
  \<comment> \<open>the characters a JSON value can begin with:
      brace, bracket, quote, minus, the digits, and t, f, n\<close>
  "jsonValueStarts =
    [0x7B, 0x5B, 0x22, 0x2D, 0x30, 0x31, 0x32, 0x33, 0x34, 0x35, 0x36, 0x37, 0x38, 0x39,
     0x74, 0x66, 0x6E]"

definition startsJsonValue :: "jsstring \<Rightarrow> bool" where
  \<comment> \<open>after leading white space the text begins as every JSON text does\<close>
  "startsJsonValue t =
    (case dropWhile isWhiteSpace t of [] \<Rightarrow> False | c # rest \<Rightarrow> c \<in> set jsonValueStarts)"

definition sampleJson :: jsstring where
  \<comment> \<open>\<open>{"properties":[]}\<close> between a space and a line feed\<close>
  "sampleJson =
    [0x20, 0x7B, 0x22, 0x70, 0x72, 0x6F, 0x70, 0x65, 0x72, 0x74, 0x69, 0x65, 0x73, 0x22,
     0x3A, 0x5B, 0x5D, 0x7D, 0x0A]"

definition sampleJsonTrimmed :: jsstring where
  "sampleJsonTrimmed =
    [0x7B, 0x22, 0x70, 0x72, 0x6F, 0x70, 0x65, 0x72, 0x74, 0x69, 0x65, 0x73, 0x22,
     0x3A, 0x5B, 0x5D, 0x7D]"

section \<open>Request Planner (createPropertyRequests)\<close>

datatype property_type = single_family | condo | townhouse

record PropertyGenerationRequest =
  req_propertyType :: property_type
  req_priceRange :: "number \<times> number"
  req_bedrooms :: number
  req_bathrooms :: number
  req_sqftRange :: "number \<times> number"
  req_yearBuiltRange :: "number \<times> number"

text \<open>
  An item of a distribution is a pair of the value and its weight. The draws of
  \<open>Math.random\<close> are an input: every draw lies in the interval from 0, included, to 1,
  excluded.
\<close>

fun weightedLoop :: "('a \<times> number) list \<Rightarrow> number \<Rightarrow> 'a option" where
  \<comment> \<open>\<open>for (const item of items) { random -= item.weight; if (random <= 0) return item }\<close>\<close>
  "weightedLoop [] random = None"
| "weightedLoop ((item, weight) # rest) random =
    (if random - weight \<le> 0 then Some item else weightedLoop rest (random - weight))"

definition weightedRandom :: "('a \<times> number) list \<Rightarrow> number \<Rightarrow> 'a" where
  \<comment> \<open>\<open>u\<close> is the draw; the fallback reads the last item, and both callers pass a
      literal list that is not empty\<close>
  "weightedRandom items u =
    (let totalWeight = sum_list (map snd items);
         random = u * totalWeight
     in case weightedLoop items random of
          Some item \<Rightarrow> item
        | None \<Rightarrow> fst (last items))"

definition propertyTypes :: "(property_type \<times> number) list" where
  "propertyTypes = [(single_family, 0.7), (condo, 0.2), (townhouse, 0.1)]"

definition bedroomDist :: "(number \<times> number) list" where
  "bedroomDist = [(2, 0.2), (3, 0.4), (4, 0.3), (5, 0.1)]"

definition Math_round :: "number \<Rightarrow> int" where
  \<comment> \<open>\<open>Math.round\<close>: the nearest integer, a half rounding up\<close>
  "Math_round x = \<lfloor>x + 1 / 2\<rfloor>"

definition bathroomsFor :: "number \<Rightarrow> number \<Rightarrow> number" where
  \<comment> \<open>line 283: \<open>Math.round((bedrooms * (0.75 + Math.random() * 0.5)) * 2) / 2\<close>\<close>
  "bathroomsFor beds u = of_int (Math_round ((beds * (0.75 + u * 0.5)) * 2)) / 2"

definition priceRangeFor :: "property_type \<Rightarrow> number \<times> number" where
  \<comment> \<open>the \<open>switch\<close> of lines 289-305; its \<open>default\<close> branch has no value of the
      type to reach it\<close>
  "priceRangeFor propType =
    (case propType of
       single_family \<Rightarrow> (1400000, 2500000)
     | condo \<Rightarrow> (800000, 1200000)
     | townhouse \<Rightarrow> (1200000, 1800000))"

definition sqftRangeFor :: "property_type \<Rightarrow> number \<times> number" where
  "sqftRangeFor propType =
    (case propType of
       single_family \<Rightarrow> (1800, 3500)
     | condo \<Rightarrow> (900, 1800)
     | townhouse \<Rightarrow> (1400, 2400))"

definition planRequest :: "number \<Rightarrow> number \<Rightarrow> number \<Rightarrow> PropertyGenerationRequest" where
  \<comment> \<open>one pass of the loop body, with its three draws in the order they are made\<close>
  "planRequest u1 u2 u3 =
    (let propType = weightedRandom propertyTypes u1;
         beds = weightedRandom bedroomDist u2;
         baths = bathroomsFor beds u3
     in \<lparr> req_propertyType = propType,
          req_priceRange = priceRangeFor propType,
          req_bedrooms = beds,
          req_bathrooms = baths,
          req_sqftRange = sqftRangeFor propType,
          req_yearBuiltRange = (1920, 2020) \<rparr>)"

fun planLoop :: "(nat \<Rightarrow> number) \<Rightarrow> nat \<Rightarrow> nat \<Rightarrow> PropertyGenerationRequest list" where
  \<comment> \<open>the passes from index \<open>i\<close> on, \<open>m\<close> of them left; pass \<open>i\<close> makes the draws
      \<open>3 i\<close>, \<open>3 i + 1\<close> and \<open>3 i + 2\<close>\<close>
  "planLoop rnd i 0 = []"
| "planLoop rnd i (Suc m) =
    planRequest (rnd (3 * i)) (rnd (3 * i + 1)) (rnd (3 * i + 2)) # planLoop rnd (Suc i) m"

definition createPropertyRequests :: "(nat \<Rightarrow> number) \<Rightarrow> nat \<Rightarrow> PropertyGenerationRequest list" where
  "createPropertyRequests rnd totalProperties = planLoop rnd 0 totalProperties"

definition halfDraws :: "nat \<Rightarrow> number" where
  \<comment> \<open>a source whose every draw is one half\<close>
  "halfDraws k = 1 / 2"

section \<open>Batch Generator: the slice loop (generatePropertyBatch)\<close>

text \<open>
  What the loop does to the world is kept as a trace: the wait for the rate limiter, the
  call of \<open>generatePropertyBatchInternal\<close> with its slice, and the pause of line 86 with
  its length in milliseconds. The rate limiter only waits and cannot throw. The result
  of the \<open>k\<close>-th call of \<open>generatePropertyBatchInternal\<close> in a run is an input of the
  model: \<open>Inl\<close> when the completion request throws, and the validated records
  otherwise (none after a parse or schema failure).
\<close>

datatype event =
    EnforceRateLimit
  | ApiCall "PropertyGenerationRequest list"
  | Pause nat

type_synonym completions =
  "nat \<Rightarrow> PropertyGenerationRequest list \<Rightarrow> error + GeneratedProperty list"

definition slice :: "nat \<Rightarrow> nat \<Rightarrow> 'a list \<Rightarrow> 'a list" where
  \<comment> \<open>\<open>xs.slice(start, stop)\<close> for indices that are not negative\<close>
  "slice start stop xs = take (stop - start) (drop start xs)"

record BatchLoopState =
  idx :: nat
  results :: "GeneratedProperty list"
  trace :: "event list"
  calls :: nat

definition batchStep ::
  "completions \<Rightarrow> nat \<Rightarrow> PropertyGenerationRequest list \<Rightarrow> BatchLoopState \<Rightarrow> BatchLoopState" where
  \<comment> \<open>one pass of the loop body and the increment \<open>i += batchSize\<close>; the \<open>continue\<close>
      of the \<open>catch\<close> goes to the increment past the pause\<close>
  "batchStep internal batchSize requests st =
    (let batch = slice (idx st) (idx st + batchSize) requests
     in case internal (calls st) batch of
          Inr batchResult \<Rightarrow>
            \<lparr> idx = idx st + batchSize,
              results = results st @ batchResult,
              trace = trace st @ [EnforceRateLimit, ApiCall batch, Pause 1000],
              calls = Suc (calls st) \<rparr>
        | Inl e \<Rightarrow>
            \<lparr> idx = idx st + batchSize,
              results = results st,
              trace = trace st @ [EnforceRateLimit, ApiCall batch],
              calls = Suc (calls st) \<rparr>)"

partial_function (option) batchLoop ::
  "completions \<Rightarrow> nat \<Rightarrow> PropertyGenerationRequest list \<Rightarrow> BatchLoopState
    \<Rightarrow> BatchLoopState option" where
  \<comment> \<open>\<open>for (let i = 0; i < requests.length; i += batchSize)\<close>; \<open>None\<close> when the loop
      never ends\<close>
  "batchLoop internal batchSize requests st =
    (if idx st < length requests
     then batchLoop internal batchSize requests (batchStep internal batchSize requests st)
     else Some st)"

definition generatePropertyBatch ::
  "completions \<Rightarrow> nat \<Rightarrow> PropertyGenerationRequest list \<Rightarrow> nat
    \<Rightarrow> (GeneratedProperty list \<times> event list \<times> nat) option" where
  \<comment> \<open>\<open>k\<close> calls were made before; returns the records, the trace and the new count\<close>
  "generatePropertyBatch internal k requests batchSize =
    map_option (\<lambda>st. (results st, trace st, calls st))
      (batchLoop internal batchSize requests
         \<lparr> idx = 0, results = [], trace = [], calls = k \<rparr>)"

subsection \<open>What the specification expects of the loop\<close>

definition sliceCount :: "nat \<Rightarrow> nat \<Rightarrow> nat" where
  \<comment> \<open>\<open>n / b\<close> rounded up\<close>
  "sliceCount n b = (n + b - 1) div b"

definition nthSlice :: "nat \<Rightarrow> 'a list \<Rightarrow> nat \<Rightarrow> 'a list" where
  \<comment> \<open>the \<open>j\<close>-th run of \<open>b\<close> consecutive elements\<close>
  "nthSlice b xs j = take b (drop (j * b) xs)"

fun apiCalls :: "event list \<Rightarrow> PropertyGenerationRequest list list" where
  \<comment> \<open>the slices sent, in the order of the calls\<close>
  "apiCalls [] = []"
| "apiCalls (ApiCall batch # es) = batch # apiCalls es"
| "apiCalls (e # es) = apiCalls es"

definition sliceEvents ::
  "completions \<Rightarrow> nat \<Rightarrow> PropertyGenerationRequest list \<Rightarrow> event list" where
  \<comment> \<open>the events of one slice: the pause is there when the call returned\<close>
  "sliceEvents internal k batch =
    [EnforceRateLimit, ApiCall batch]
      @ (case internal k batch of Inl e \<Rightarrow> [] | Inr batchResult \<Rightarrow> [Pause 1000])"

definition sliceRecords ::
  "completions \<Rightarrow> nat \<Rightarrow> PropertyGenerationRequest list \<Rightarrow> GeneratedProperty list" where
  "sliceRecords internal k batch =
    (case internal k batch of Inl e \<Rightarrow> [] | Inr batchResult \<Rightarrow> batchResult)"

fun pausedAfterEveryCall :: "event list \<Rightarrow> bool" where
  \<comment> \<open>every call is followed at once by the pause of one second\<close>
  "pausedAfterEveryCall [] = True"
| "pausedAfterEveryCall (ApiCall batch # es) =
    (case es of Pause ms # es' \<Rightarrow> ms = 1000 \<and> pausedAfterEveryCall es' | _ \<Rightarrow> False)"
| "pausedAfterEveryCall (e # es) = pausedAfterEveryCall es"

definition sampleRequests :: "PropertyGenerationRequest list" where
  "sampleRequests = createPropertyRequests halfDraws 5"

definition alwaysThrows :: completions where
  "alwaysThrows k batch = Inl ApiError"

definition alwaysEmpty :: completions where
  \<comment> \<open>every completion fails to parse\<close>
  "alwaysEmpty k batch = Inr []"

section \<open>Orchestrator (scripts/generate-listings.ts)\<close>

text \<open>
  What the run meets outside the program is gathered in one record: the credential in
  the process environment, whether the first count query throws, the operator's answer
  at the prompt (\<open>None\<close> when there is none), the results of the calls of
  \<open>generatePropertyBatchInternal\<close>, the faults of the store and the random draws.
  The clock (start time, elapsed time) is left out of the progress record.
\<close>

record Environment =
  env_apiKey :: "string option"
  env_countThrows :: bool
  env_promptAnswer :: "string option"
  env_completions :: completions
  env_faults :: "nat \<Rightarrow> db_fault"
  env_random :: "nat \<Rightarrow> number"

record GenerationProgress =
  totalRequested :: nat
  totalGenerated :: nat
  totalInserted :: nat
  currentChunk :: nat
  totalChunks :: nat
  failedBatches :: "nat list"

record RunState =
  run_progress :: GenerationProgress
  run_store :: Store
  run_apiCalls :: nat
  run_dbCalls :: nat

datatype run_result = AbortedByUser | Summary RunState

definition chunkSize :: nat where
  "chunkSize = 50"

definition apiKeyPresent :: "Environment \<Rightarrow> bool" where
  \<comment> \<open>\<open>process.env.OPENAI_API_KEY\<close> is truthy\<close>
  "apiKeyPresent env = (env_apiKey env \<noteq> None \<and> env_apiKey env \<noteq> Some [])"

definition newOrchestrator :: "Environment \<Rightarrow> nat \<Rightarrow> nat \<Rightarrow> error + GenerationProgress" where
  \<comment> \<open>the constructor of \<open>DataGenerationOrchestrator\<close>\<close>
  "newOrchestrator env totalProperties batchSize =
    (if \<not> apiKeyPresent env then Inl MissingApiKey
     else Inr \<lparr> totalRequested = totalProperties, totalGenerated = 0, totalInserted = 0,
                currentChunk = 0, totalChunks = 0, failedBatches = [] \<rparr>)"

definition answersYes :: "string option \<Rightarrow> bool" where
  \<comment> \<open>\<open>response?.toLowerCase() === 'y'\<close>: only y and Y are y in lower case\<close>
  "answersYes response = (response = Some ''y'' \<or> response = Some ''Y'')"

definition processChunk ::
  "Environment \<Rightarrow> nat \<Rightarrow> PropertyGenerationRequest list \<Rightarrow> nat \<Rightarrow> RunState
    \<Rightarrow> RunState option" where
  \<comment> \<open>one pass of the chunk loop. Nothing in its \<open>try\<close> throws: both services and
      \<open>saveRawData\<close> catch what they meet, so the \<open>catch\<close> is a dead branch here.
      \<open>None\<close> when \<open>generatePropertyBatch\<close> never returns\<close>
  "processChunk env batchSize requests chunkIdx st =
    (let startIdx = chunkIdx * chunkSize;
         endIdx = min (startIdx + chunkSize) (length requests);
         chunkRequests = slice startIdx endIdx requests;
         pr = (run_progress st)\<lparr>currentChunk := chunkIdx + 1\<rparr>
     in case generatePropertyBatch (env_completions env) (run_apiCalls st) chunkRequests
               batchSize of
          None \<Rightarrow> None
        | Some (propertiesData, tr, k') \<Rightarrow>
            if length propertiesData = 0
            then Some (st\<lparr>run_progress := pr, run_apiCalls := k'\<rparr>)
            else
              (case insertProperties (env_faults env) (run_dbCalls st) (run_store st)
                      propertiesData of
                 (store', insertedCount, d') \<Rightarrow>
                   Some \<lparr> run_progress =
                            pr\<lparr>totalGenerated := totalGenerated pr + length propertiesData,
                               totalInserted := totalInserted pr + insertedCount\<rparr>,
                          run_store = store',
                          run_apiCalls = k',
                          run_dbCalls = d' \<rparr>))"

fun chunkLoop ::
  "Environment \<Rightarrow> nat \<Rightarrow> PropertyGenerationRequest list \<Rightarrow> nat list \<Rightarrow> RunState
    \<Rightarrow> RunState option" where
  \<comment> \<open>the passes for the chunk indices of the list, in order\<close>
  "chunkLoop env batchSize requests [] st = Some st"
| "chunkLoop env batchSize requests (chunkIdx # rest) st =
    (case processChunk env batchSize requests chunkIdx st of
       None \<Rightarrow> None
     | Some st' \<Rightarrow> chunkLoop env batchSize requests rest st')"

definition startState :: "GenerationProgress \<Rightarrow> nat \<Rightarrow> Store \<Rightarrow> RunState" where
  \<comment> \<open>the state in which the chunk loop is entered\<close>
  "startState progress0 chunks store0 =
    \<lparr> run_progress = progress0\<lparr>totalChunks := chunks\<rparr>, run_store = store0,
      run_apiCalls = 0, run_dbCalls = 0 \<rparr>"

definition generateAllData ::
  "Environment \<Rightarrow> nat \<Rightarrow> nat \<Rightarrow> Store \<Rightarrow> GenerationProgress
    \<Rightarrow> (error + run_result) option" where
  \<comment> \<open>\<open>Inl\<close>: thrown to \<open>main\<close>; \<open>Summary\<close>: the state \<open>printFinalSummary\<close> reports;
      \<open>None\<close>: the call never returns\<close>
  "generateAllData env totalProperties batchSize store0 progress0 =
    (if env_countThrows env then Some (Inl PrismaError)
     else
       let currentCount = length (tbl_property store0)
       in if currentCount > 0 \<and> \<not> answersYes (env_promptAnswer env)
          then Some (Inr AbortedByUser)
          else
            let requests = createPropertyRequests (env_random env) totalProperties;
                chunks = nat \<lceil>real (length requests) / real chunkSize\<rceil>
            in case chunkLoop env batchSize requests [0..<chunks]
                      (startState progress0 chunks store0) of
                 None \<Rightarrow> None
               | Some st \<Rightarrow> Some (Inr (Summary st)))"

definition main :: "Environment \<Rightarrow> nat \<Rightarrow> nat \<Rightarrow> Store \<Rightarrow> (error + run_result) option" where
  \<comment> \<open>\<open>main\<close> without \<open>--validate-only\<close>, up to the end of \<open>generateAllData\<close>\<close>
  "main env totalProperties batchSize store0 =
    (case newOrchestrator env totalProperties batchSize of
       Inl e \<Rightarrow> Some (Inl e)
     | Inr progress0 \<Rightarrow> generateAllData env totalProperties batchSize store0 progress0)"

definition quietEnv :: Environment where
  \<comment> \<open>a credential, a working store, every completion unparseable\<close>
  "quietEnv =
    \<lparr> env_apiKey = Some ''sk-test'', env_countThrows = False, env_promptAnswer = Some ''n'',
      env_completions = alwaysEmpty, env_faults = (\<lambda>k. NoFault), env_random = halfDraws \<rparr>"

definition generousCompletions :: completions where
  \<comment> \<open>every completion holds two well-formed records, whatever was asked for\<close>
  "generousCompletions k batch =
    Inr [sampleProperty, sampleProperty\<lparr>zpid := Some ''87654321''\<rparr>]"

definition generousEnv :: Environment where
  "generousEnv = quietEnv\<lparr>env_completions := generousCompletions\<rparr>"

definition boundedCompletions :: "completions \<Rightarrow> bool" where
  \<comment> \<open>no completion holds more records than its slice asked for\<close>
  "boundedCompletions internal =
    (\<forall>k batch rs. internal k batch = Inr rs \<longrightarrow> length rs \<le> length batch)"

definition summaryProgress :: "(error + run_result) option \<Rightarrow> GenerationProgress option" where
  \<comment> \<open>the counters the summary reports, when the run reaches it\<close>
  "summaryProgress r =
    (case r of Some (Inr (Summary st)) \<Rightarrow> Some (run_progress st) | _ \<Rightarrow> None)"

definition sampleProgress :: GenerationProgress where
  \<comment> \<open>the progress record the constructor builds for one requested property\<close>
  "sampleProgress =
    \<lparr> totalRequested = 1, totalGenerated = 0, totalInserted = 0, currentChunk = 0,
      totalChunks = 0, failedBatches = [] \<rparr>"

definition echoCompletions :: completions where
  \<comment> \<open>every completion holds one well-formed record for each request of its slice\<close>
  "echoCompletions k batch = Inr (map (\<lambda>request. sampleProperty) batch)"

definition echoEnv :: Environment where
  "echoEnv = quietEnv\<lparr>env_completions := echoCompletions\<rparr>"

section \<open>Validation before insertion\<close>

lemma isInteger_Ints: "isInteger x \<longleftrightarrow> x \<in> \<int>"
  unfolding isInteger_def
  by (metis Ints_of_int floor_of_int Ints_cases)

lemma validate_rejects:
  assumes "2024 \<le> currentYear" and "mustBeRejected currentYear p"
  shows "\<not> validatePropertyData p"
  using assms
  unfolding mustBeRejected_def missingRequired_def notPositiveInteger_def outside_def
    validatePropertyData_def isInteger_Ints
  by (auto split: option.splits)

text \<open>
  C1. A record that misses a required field, or whose bedrooms, sqft or price is not a
  positive integer, or whose bathrooms is not positive, or whose yearBuilt lies outside
  1800 to the current year, or whose latitude lies outside 37.8 to 37.9, or whose
  longitude lies outside -122.3 to -122.2, fails \<open>validatePropertyData\<close>, and
  \<open>insertSingleProperty\<close> returns false with the store as it was. The code compares
  yearBuilt with the literal 2024, so the statement holds for every current year from
  2024 on.
\<close>

theorem invalid_record_never_written:
  assumes "2024 \<le> currentYear" and "mustBeRejected currentYear propData"
  shows "validatePropertyData propData = False
         \<and> insertSingleProperty fault store propData = (store, False)"
  using validate_rejects [OF assms] by (simp add: insertSingleProperty_def)

theorem invalid_record_never_written_witness:
  "(2024::real) \<le> 2026 \<and> mustBeRejected 2026 (sampleProperty\<lparr>bedrooms := Some 0\<rparr>)
   \<and> validatePropertyData (sampleProperty\<lparr>bedrooms := Some 0\<rparr>) = False
   \<and> insertSingleProperty NoFault emptyStore (sampleProperty\<lparr>bedrooms := Some 0\<rparr>)
       = (emptyStore, False)"
proof -
  have y: "(2024::real) \<le> 2026" by simp
  have r: "mustBeRejected 2026 (sampleProperty\<lparr>bedrooms := Some 0\<rparr>)"
    by (simp add: mustBeRejected_def notPositiveInteger_def)
  show ?thesis
    using y r invalid_record_never_written [OF y r, of NoFault emptyStore] by simp
qed

lemma sample_valid: "validatePropertyData sampleProperty"
  by (simp add: validatePropertyData_def sampleProperty_def isInteger_def)

section \<open>Duplicate identifiers\<close>

lemma find_existing: "zpidExists store z \<Longrightarrow> \<exists>row. find (\<lambda>row. p_zpid row = z) (tbl_property store) = Some row"
  unfolding zpidExists_def by (cases "find (\<lambda>row. p_zpid row = z) (tbl_property store)") (auto simp: find_None_iff)

lemma find_fresh: "\<not> zpidExists store z \<Longrightarrow> find (\<lambda>row. p_zpid row = z) (tbl_property store) = None"
  unfolding zpidExists_def by (simp add: find_None_iff)

lemma existing_skipped:
  assumes "zpidExists store (zpid propData)"
  shows "insertSingleProperty fault store propData = (store, False)"
proof -
  from find_existing [OF assms] obtain row where
    "find (\<lambda>row. p_zpid row = zpid propData) (tbl_property store) = Some row" ..
  then show ?thesis
    by (simp add: insertSingleProperty_def findUnique_def)
qed

lemma fresh_inserted:
  assumes "validatePropertyData propData" "\<not> zpidExists store (zpid propData)"
  shows "\<exists>store'. insertSingleProperty NoFault store propData = (store', True)
       \<and> tbl_property store' = tbl_property store @ [propertyRow (nextId store) propData]"
  using assms find_fresh [OF assms(2)]
  by (simp add: insertSingleProperty_def findUnique_def transaction_def Let_def)

lemma propertyRow_zpid: "p_zpid (propertyRow i propData) = zpid propData"
  by (simp add: propertyRow_def)

text \<open>
  C2. When a row with the record's zpid is already stored, \<open>insertSingleProperty\<close>
  writes nothing and returns false, whatever the store's calls do. Inserting a valid
  record with a new zpid twice in one batch stores exactly one row with that zpid, and
  \<open>insertProperties\<close> counts one insertion: the second attempt is skipped.
\<close>

theorem duplicate_handling_idempotent:
  "(zpidExists store (zpid propData)
      \<longrightarrow> insertSingleProperty fault store propData = (store, False))
   \<and> (validatePropertyData propData \<and> \<not> zpidExists store (zpid propData) \<and> faults k = NoFault
      \<longrightarrow> (\<exists>store'. insertProperties faults k store [propData, propData] = (store', 1, k + 2)
            \<and> rowsWithZpid store' (zpid propData) = 1))"
proof (intro conjI impI)
  assume "zpidExists store (zpid propData)"
  then show "insertSingleProperty fault store propData = (store, False)"
    by (rule existing_skipped)
next
  assume a: "validatePropertyData propData \<and> \<not> zpidExists store (zpid propData) \<and> faults k = NoFault"
  then obtain store' where
    first: "insertSingleProperty NoFault store propData = (store', True)" and
    tbl: "tbl_property store' = tbl_property store @ [propertyRow (nextId store) propData]"
    using fresh_inserted by blast
  have ex: "zpidExists store' (zpid propData)"
    by (simp add: zpidExists_def tbl propertyRow_zpid)
  have second: "insertSingleProperty (faults (Suc k)) store' propData = (store', False)"
    using ex by (rule existing_skipped)
  have none: "filter (\<lambda>row. p_zpid row = zpid propData) (tbl_property store) = []"
    using a by (auto simp: zpidExists_def filter_empty_conv)
  have "insertProperties faults k store [propData, propData] = (store', 1, k + 2)"
    using a first second by (simp add: insertProperties_def)
  moreover have "rowsWithZpid store' (zpid propData) = 1"
    by (simp add: rowsWithZpid_def tbl none propertyRow_zpid)
  ultimately show "\<exists>store'. insertProperties faults k store [propData, propData] = (store', 1, k + 2)
            \<and> rowsWithZpid store' (zpid propData) = 1" by blast
qed

theorem duplicate_handling_idempotent_witness:
  "\<exists>store'. insertProperties (\<lambda>k. NoFault) 0 emptyStore [sampleProperty, sampleProperty] = (store', 1, 2)
      \<and> rowsWithZpid store' (zpid sampleProperty) = 1
      \<and> zpidExists store' (zpid sampleProperty)
      \<and> insertSingleProperty NoFault store' sampleProperty = (store', False)"
proof -
  have fresh: "\<not> zpidExists emptyStore (zpid sampleProperty)"
    by (simp add: zpidExists_def emptyStore_def)
  from duplicate_handling_idempotent [of emptyStore sampleProperty NoFault "\<lambda>k. NoFault" 0]
    sample_valid fresh
  obtain store' where
    s: "insertProperties (\<lambda>k. NoFault) 0 emptyStore [sampleProperty, sampleProperty] = (store', 1, 2)"
      "rowsWithZpid store' (zpid sampleProperty) = 1"
    by auto
  from s(2) have "filter (\<lambda>row. p_zpid row = zpid sampleProperty) (tbl_property store') \<noteq> []"
    by (auto simp: rowsWithZpid_def)
  then have ex: "zpidExists store' (zpid sampleProperty)"
    by (auto simp: zpidExists_def filter_empty_conv)
  with duplicate_handling_idempotent [of store' sampleProperty NoFault "\<lambda>k. NoFault" 0] s
  show ?thesis by blast
qed

section \<open>Failures stay with their record\<close>

lemma insertLoop_outcomes:
  "insertLoop faults k store n ps =
    (fst (insertLoop faults k store 0 ps), n + length (filter id (outcomes faults k store ps)), k + length ps)"
proof (induction ps arbitrary: k store n)
  case Nil
  then show ?case by simp
next
  case (Cons p ps)
  obtain s' ok where step: "insertSingleProperty (faults k) store p = (s', ok)"
    by (cases "insertSingleProperty (faults k) store p")
  show ?case
  proof (cases ok)
    case True
    with step Cons.IH [of "Suc k" s' "n + 1"] Cons.IH [of "Suc k" s' "0 + 1"]
    show ?thesis by simp
  next
    case False
    with step Cons.IH [of "Suc k" s' n] Cons.IH [of "Suc k" s' 0]
    show ?thesis by simp
  qed
qed

lemma length_outcomes: "length (outcomes faults k store ps) = length ps"
  by (induction ps arbitrary: k store) auto

lemma insertLoop_append:
  "insertLoop faults k store n (ps @ qs) =
    (case insertLoop faults k store n ps of
       (store1, n1, k1) \<Rightarrow> insertLoop faults k1 store1 n1 qs)"
proof (induction ps arbitrary: k store n)
  case Nil
  then show ?case by simp
next
  case (Cons p ps)
  obtain s' ok where step: "insertSingleProperty (faults k) store p = (s', ok)"
    by (cases "insertSingleProperty (faults k) store p")
  show ?case using step Cons.IH by (cases ok) simp_all
qed

text \<open>
  C4. \<open>insertProperties\<close> runs \<open>insertSingleProperty\<close> on every record, in order:
  there is one outcome per record, the returned \<open>insertedCount\<close> is the number of
  outcomes that are true, and whatever happened to the records of a prefix (validation
  failure, duplicate, a throwing store call), the records after it are processed from
  the store and the count the prefix left. The function is total: nothing is raised.
\<close>

theorem failures_isolated_per_record:
  "length (outcomes faults k store propertiesData) = length propertiesData
   \<and> fst (snd (insertProperties faults k store propertiesData))
       = length (filter id (outcomes faults k store propertiesData))
   \<and> insertProperties faults k store (propertiesData @ later)
       = (case insertProperties faults k store propertiesData of
            (store1, n1, k1) \<Rightarrow>
              (case insertProperties faults k1 store1 later of
                 (store2, n2, k2) \<Rightarrow> (store2, n1 + n2, k2)))"
proof (intro conjI)
  show "length (outcomes faults k store propertiesData) = length propertiesData"
    by (rule length_outcomes)
  show "fst (snd (insertProperties faults k store propertiesData))
       = length (filter id (outcomes faults k store propertiesData))"
    unfolding insertProperties_def by (subst insertLoop_outcomes) simp
  show "insertProperties faults k store (propertiesData @ later)
       = (case insertProperties faults k store propertiesData of
            (store1, n1, k1) \<Rightarrow>
              (case insertProperties faults k1 store1 later of
                 (store2, n2, k2) \<Rightarrow> (store2, n1 + n2, k2)))"
    unfolding insertProperties_def insertLoop_append
    by (cases "insertLoop faults k store 0 propertiesData")
       (simp, subst insertLoop_outcomes, subst (2) insertLoop_outcomes, simp)
qed

lemma mixed_outcomes:
  "outcomes mixedFaults 0 emptyStore mixedBatch = [False, True, False, False, True]"
  by (simp add: mixedBatch_def mixedFaults_def emptyStore_def sampleProperty_def
        insertSingleProperty_def validatePropertyData_def isInteger_def findUnique_def
        transaction_def propertyRow_def)

theorem failures_isolated_per_record_witness:
  "outcomes mixedFaults 0 emptyStore mixedBatch = [False, True, False, False, True]
   \<and> fst (snd (insertProperties mixedFaults 0 emptyStore mixedBatch)) = 2"
  using failures_isolated_per_record [of mixedFaults 0 emptyStore mixedBatch "[]"]
  by (simp add: mixed_outcomes)

section \<open>Photo rows\<close>

lemma length_photoRows: "length (photoRows pid z i phs) = length phs"
  by (induction phs arbitrary: i) auto

lemma nth_photoRows:
  "j < length phs \<Longrightarrow> photoRows pid z i phs ! j = photoRow pid z (i + j) (phs ! j)"
proof (induction phs arbitrary: i j)
  case Nil
  then show ?case by simp
next
  case (Cons ph phs)
  then show ?case by (cases j) auto
qed

lemma propertyRow_id: "p_id (propertyRow i propData) = i"
  by (simp add: propertyRow_def)

lemma inserted_photo_table:
  assumes "insertSingleProperty fault store propData = (store', True)"
    and "photos propData = Some phs"
  shows "tbl_propertyPhoto store'
          = tbl_propertyPhoto store @ photoRows (nextId store) (zpid propData) 0 phs"
  using assms
  by (auto simp: insertSingleProperty_def transaction_def Let_def propertyRow_id
           split: if_splits sum.splits option.splits)

text \<open>
  C5. When a record is inserted, one row per photo is appended to the photo table, in
  order. The row of the photo at index \<open>i\<close> has its image URL, the column the
  enrichment step fills, left null; its \<open>sortOrder\<close> is the photo's own or else
  \<open>i\<close>; and its \<open>isPrimary\<close> is the photo's own or else true exactly for \<open>i = 0\<close>.
  (The row's other address column, \<open>photoUrl\<close>, holds the placeholder address built
  from the zpid and \<open>i + 1\<close>.)
\<close>

theorem photo_rows_written:
  assumes "insertSingleProperty fault store propData = (store', True)"
    and "photos propData = Some phs"
  shows "\<exists>rows. tbl_propertyPhoto store' = tbl_propertyPhoto store @ rows
           \<and> length rows = length phs
           \<and> (\<forall>i < length phs.
                 ph_imageUrl (rows ! i) = None
               \<and> ph_sortOrder (rows ! i) = Some (orElse (sortOrder (phs ! i)) (of_nat i))
               \<and> ph_isPrimary (rows ! i) = orElse (isPrimary (phs ! i)) (i = 0)
               \<and> ph_photoUrl (rows ! i) = Some (placeholderUrl (zpid propData) i))"
proof -
  let ?rows = "photoRows (nextId store) (zpid propData) 0 phs"
  have "tbl_propertyPhoto store' = tbl_propertyPhoto store @ ?rows"
    using assms by (rule inserted_photo_table)
  moreover have "length ?rows = length phs"
    by (rule length_photoRows)
  moreover have "\<forall>i < length phs.
                 ph_imageUrl (?rows ! i) = None
               \<and> ph_sortOrder (?rows ! i) = Some (orElse (sortOrder (phs ! i)) (of_nat i))
               \<and> ph_isPrimary (?rows ! i) = orElse (isPrimary (phs ! i)) (i = 0)
               \<and> ph_photoUrl (?rows ! i) = Some (placeholderUrl (zpid propData) i)"
    by (simp add: nth_photoRows photoRow_def)
  ultimately show ?thesis by blast
qed

lemma sample_inserted: "insertSingleProperty NoFault emptyStore sampleProperty = (sampleStored, True)"
  unfolding sampleStored_def
  by (simp add: insertSingleProperty_def sample_valid findUnique_def transaction_def emptyStore_def Let_def)

theorem photo_rows_written_witness:
  "insertSingleProperty NoFault emptyStore sampleProperty = (sampleStored, True)
   \<and> photos sampleProperty = Some samplePhotos
   \<and> (\<exists>rows. tbl_propertyPhoto sampleStored = rows \<and> length rows = 2
         \<and> ph_imageUrl (rows ! 0) = None \<and> ph_imageUrl (rows ! 1) = None
         \<and> ph_sortOrder (rows ! 0) = Some 0 \<and> ph_isPrimary (rows ! 0) = True
         \<and> ph_sortOrder (rows ! 1) = Some 7 \<and> ph_isPrimary (rows ! 1) = False)"
proof -
  have ph: "photos sampleProperty = Some samplePhotos"
    by (simp add: sampleProperty_def)
  from photo_rows_written [OF sample_inserted ph] obtain rows where
    tbl: "tbl_propertyPhoto sampleStored = tbl_propertyPhoto emptyStore @ rows" and
    len: "length rows = length samplePhotos" and
    each: "\<forall>i < length samplePhotos.
             ph_imageUrl (rows ! i) = None
           \<and> ph_sortOrder (rows ! i) = Some (orElse (sortOrder (samplePhotos ! i)) (of_nat i))
           \<and> ph_isPrimary (rows ! i) = orElse (isPrimary (samplePhotos ! i)) (i = 0)
           \<and> ph_photoUrl (rows ! i) = Some (placeholderUrl (zpid sampleProperty) i)"
    by blast
  have two: "length samplePhotos = 2"
    by (simp add: samplePhotos_def)
  from each two have r0: "ph_imageUrl (rows ! 0) = None
      \<and> ph_sortOrder (rows ! 0) = Some 0 \<and> ph_isPrimary (rows ! 0) = True"
    by (simp add: samplePhotos_def orElse_def)
  have "(1::nat) < length samplePhotos"
    using two by simp
  with each have "ph_imageUrl (rows ! 1) = None
           \<and> ph_sortOrder (rows ! 1) = Some (orElse (sortOrder (samplePhotos ! 1)) (of_nat 1))
           \<and> ph_isPrimary (rows ! 1) = orElse (isPrimary (samplePhotos ! 1)) ((1::nat) = 0)"
    by blast
  then have r1: "ph_imageUrl (rows ! 1) = None
      \<and> ph_sortOrder (rows ! 1) = Some 7 \<and> ph_isPrimary (rows ! 1) = False"
    by (simp add: samplePhotos_def orElse_def)
  from tbl have "tbl_propertyPhoto sampleStored = rows"
    by (simp add: emptyStore_def)
  with len two r0 r1 sample_inserted ph show ?thesis
    by simp
qed

section \<open>Markdown fences\<close>


lemma fence_not_space: "\<not> isWhiteSpace 0x60"
  by (simp add: isWhiteSpace_def)

lemma starts_not_space_tick_j:
  "c \<in> set jsonValueStarts \<Longrightarrow> c \<noteq> 0x60 \<and> c \<noteq> 0x6A"
  by (auto simp: jsonValueStarts_def)

lemma space_not_j: "isWhiteSpace c \<Longrightarrow> c \<noteq> 0x6A"
  by (auto simp: isWhiteSpace_def)

lemma trim_keeps:
  assumes "s \<noteq> []" "\<not> isWhiteSpace (hd s)" "\<not> isWhiteSpace (last s)"
  shows "trim s = s"
proof -
  from assms have a: "dropWhile isWhiteSpace s = s"
    by (cases s) auto
  from assms have "rev s \<noteq> []" "\<not> isWhiteSpace (hd (rev s))"
    by (auto simp: hd_rev)
  then have "dropWhile isWhiteSpace (rev s) = rev s"
    by (cases "rev s") auto
  with a show ?thesis by (simp add: trim_def)
qed

lemma dropWhile_spaces:
  "list_all isWhiteSpace ws \<Longrightarrow> dropWhile isWhiteSpace (ws @ s) = dropWhile isWhiteSpace s"
  by (induction ws) auto

lemma dropWhile_keeps_rest:
  "dropWhile P t \<noteq> [] \<Longrightarrow> dropWhile P (t @ s) = dropWhile P t @ s"
  by (induction t) auto

lemma trim_Cons:
  assumes "dropWhile isWhiteSpace t = c # u"
  shows "trim t = c # rev (dropWhile isWhiteSpace (rev u))"
proof -
  from assms have nc: "\<not> isWhiteSpace c"
    by (metis hd_dropWhile list.sel(1) list.distinct(1))
  then show ?thesis
    by (simp add: trim_def assms dropWhile_append3)
qed

lemma strip_tail:
  assumes "dropWhile isWhiteSpace t = u" "u \<noteq> []" "list_all isWhiteSpace ws2"
  shows "replaceTrailingFence (u @ ws2 @ fence) = trim t"
proof -
  have suf: "suffix fence (u @ ws2 @ fence)"
    by (simp add: suffix_def)
  have tk: "take (length (u @ ws2 @ fence) - length fence) (u @ ws2 @ fence) = u @ ws2"
    by simp
  have "dropWhile isWhiteSpace (rev ws2 @ rev u) = dropWhile isWhiteSpace (rev u)"
    using assms(3) by (intro dropWhile_spaces) (simp add: list_all_iff)
  then show ?thesis
    unfolding replaceTrailingFence_def using suf tk assms(1)
    by (simp add: trim_def del: take_append)
qed


lemma strip_fenced:
  assumes nf: "\<not> startsWith (lit @ ws1 @ t @ ws2 @ fence) other \<or> other = lit"
    and lit: "lit \<noteq> []" "\<not> isWhiteSpace (hd lit)"
    and t: "dropWhile isWhiteSpace t \<noteq> []"
    and ws: "list_all isWhiteSpace ws1" "list_all isWhiteSpace ws2"
  shows "replaceTrailingFence (replaceLeading lit (trim (lit @ ws1 @ t @ ws2 @ fence))) = trim t"
proof -
  let ?s = "lit @ ws1 @ t @ ws2 @ fence"
  have "last ?s = 0x60"
    by (simp add: fence_def)
  then have tr: "trim ?s = ?s"
    using lit by (intro trim_keeps) (simp_all add: fence_not_space)
  have "dropWhile isWhiteSpace (ws1 @ t @ ws2 @ fence) = dropWhile isWhiteSpace (t @ ws2 @ fence)"
    using ws(1) by (rule dropWhile_spaces)
  also have "\<dots> = dropWhile isWhiteSpace t @ ws2 @ fence"
    using t by (rule dropWhile_keeps_rest)
  finally have "replaceLeading lit ?s = dropWhile isWhiteSpace t @ ws2 @ fence"
    by (simp add: replaceLeading_def)
  then show ?thesis
    using strip_tail [OF refl t ws(2)] tr by simp
qed

lemma plain_fence_not_json:
  assumes t: "startsJsonValue t" and ws: "list_all isWhiteSpace ws1"
  shows "\<not> startsWith (fence @ ws1 @ t @ rest) fenceJson"
proof -
  from t obtain c u where cu: "dropWhile isWhiteSpace t = c # u" "c \<in> set jsonValueStarts"
    by (auto simp: startsJsonValue_def split: list.splits)
  then have tne: "t \<noteq> []" by auto
  have "hd (ws1 @ t @ rest) \<noteq> 0x6A"
  proof (cases ws1)
    case Nil
    show ?thesis
    proof (cases "isWhiteSpace (hd t)")
      case True
      with Nil tne show ?thesis by (simp add: space_not_j)
    next
      case False
      with tne have "dropWhile isWhiteSpace t = t" by (cases t) auto
      with cu have "hd t = c" by simp
      with cu(2) Nil tne show ?thesis by (simp add: starts_not_space_tick_j)
    qed
  next
    case (Cons w ws')
    with ws show ?thesis by (simp add: space_not_j)
  qed
  moreover have "ws1 @ t @ rest \<noteq> []" using tne by simp
  ultimately show ?thesis
    by (cases "ws1 @ t @ rest") (auto simp: startsWith_def fence_def fenceJson_def)
qed

lemma unfenced:
  assumes t: "startsJsonValue t"
  shows "stripCodeFences t = trim t"
proof -
  from t obtain c u where cu: "dropWhile isWhiteSpace t = c # u" "c \<in> set jsonValueStarts"
    by (auto simp: startsJsonValue_def split: list.splits)
  from trim_Cons [OF cu(1)] starts_not_space_tick_j [OF cu(2)]
  have "\<not> startsWith (trim t) fenceJson" "\<not> startsWith (trim t) fence"
    by (simp_all add: startsWith_def fence_def fenceJson_def)
  then show ?thesis by (simp add: stripCodeFences_def)
qed

text \<open>
  C3, as the code has it. Let \<open>t\<close> begin, after white space, as a JSON text does, and
  let it be wrapped between the opening fence with or without the word json and the
  closing fence, with any white space between fence and text. Then the stripping step
  turns both wrapped forms and \<open>t\<close> itself into the same string, \<open>t\<close> without its
  leading and trailing white space. So all three reach \<open>JSON.parse\<close> as one string
  and give one value, and \<open>generatePropertyBatchInternal\<close> returns the same records
  for all three. The unfenced text comes out unchanged exactly when it has no white
  space around it: the \<open>trim\<close> of line 120 is applied to it as well.
\<close>

theorem fence_stripping_preserves_json:
  assumes "startsJsonValue t" and "list_all isWhiteSpace ws1" and "list_all isWhiteSpace ws2"
  shows "stripCodeFences (fenceJson @ ws1 @ t @ ws2 @ fence) = trim t
       \<and> stripCodeFences (fence @ ws1 @ t @ ws2 @ fence) = trim t
       \<and> stripCodeFences t = trim t
       \<and> (stripCodeFences t = t) = (trim t = t)
       \<and> jsonParse (stripCodeFences (fenceJson @ ws1 @ t @ ws2 @ fence)) = jsonParse (stripCodeFences t)
       \<and> jsonParse (stripCodeFences (fence @ ws1 @ t @ ws2 @ fence)) = jsonParse (stripCodeFences t)
       \<and> generatePropertyBatchInternal jsonParse schemaParse
             (Inr (Some (fenceJson @ ws1 @ t @ ws2 @ fence)))
           = generatePropertyBatchInternal jsonParse schemaParse (Inr (Some t))
       \<and> generatePropertyBatchInternal jsonParse schemaParse
             (Inr (Some (fence @ ws1 @ t @ ws2 @ fence)))
           = generatePropertyBatchInternal jsonParse schemaParse (Inr (Some t))"
proof -
  from assms(1) have ne: "dropWhile isWhiteSpace t \<noteq> []"
    unfolding startsJsonValue_def by (cases "dropWhile isWhiteSpace t") simp_all
  let ?a = "fenceJson @ ws1 @ t @ ws2 @ fence"
  let ?b = "fence @ ws1 @ t @ ws2 @ fence"
  have ta: "trim ?a = ?a"
    by (intro trim_keeps) (simp_all add: fence_def fenceJson_def fence_not_space)
  have tb: "trim ?b = ?b"
    by (intro trim_keeps) (simp_all add: fence_def fence_not_space)
  have a: "stripCodeFences ?a = trim t"
    using strip_fenced [of fenceJson ws1 t ws2 fenceJson] ne assms(2,3) ta
    by (simp add: stripCodeFences_def startsWith_def fenceJson_def fence_not_space)
  have nj: "\<not> startsWith ?b fenceJson"
    using plain_fence_not_json [OF assms(1,2)] .
  have b: "stripCodeFences ?b = trim t"
    using strip_fenced [of fence ws1 t ws2 fence] ne assms(2,3) tb nj
    by (simp add: stripCodeFences_def) (simp add: startsWith_def fence_def fence_not_space)
  have c: "stripCodeFences t = trim t"
    using assms(1) by (rule unfenced)
  have tne: "t \<noteq> []"
    using ne by auto
  have "fenceJson @ ws1 @ t @ ws2 @ fence \<noteq> []" "fence @ ws1 @ t @ ws2 @ fence \<noteq> []"
    by (simp_all add: fence_def)
  then show ?thesis
    using tne by (simp add: a b c generatePropertyBatchInternal_def)
qed

lemma sample_trim: "trim sampleJson = sampleJsonTrimmed"
  by (simp add: trim_def sampleJson_def sampleJsonTrimmed_def isWhiteSpace_def)

theorem fence_stripping_preserves_json_witness:
  "startsJsonValue sampleJson \<and> list_all isWhiteSpace [0x0A] \<and> list_all isWhiteSpace []
   \<and> stripCodeFences (fenceJson @ [0x0A] @ sampleJson @ [] @ fence) = sampleJsonTrimmed
   \<and> stripCodeFences (fence @ [0x0A] @ sampleJson @ [] @ fence) = sampleJsonTrimmed
   \<and> stripCodeFences sampleJson = sampleJsonTrimmed
   \<and> startsJsonValue sampleJsonTrimmed
   \<and> stripCodeFences sampleJsonTrimmed = sampleJsonTrimmed"
proof -
  have s: "startsJsonValue sampleJson"
    by (simp add: startsJsonValue_def sampleJson_def isWhiteSpace_def jsonValueStarts_def)
  have s': "startsJsonValue sampleJsonTrimmed"
    by (simp add: startsJsonValue_def sampleJsonTrimmed_def isWhiteSpace_def jsonValueStarts_def)
  have w1: "list_all isWhiteSpace [0x0A]"
    by (simp add: isWhiteSpace_def)
  have w2: "list_all isWhiteSpace []"
    by simp
  have t': "trim sampleJsonTrimmed = sampleJsonTrimmed"
    by (simp add: trim_def sampleJsonTrimmed_def isWhiteSpace_def)
  have "stripCodeFences sampleJsonTrimmed = sampleJsonTrimmed"
    using fence_stripping_preserves_json
      [OF s' w1 w2, where jsonParse = Some and schemaParse = "\<lambda>v. None"] t'
    by simp
  then show ?thesis
    using s s' w1 w2 fence_stripping_preserves_json
      [OF s w1 w2, where jsonParse = Some and schemaParse = "\<lambda>v. None"] sample_trim
    by simp
qed

text \<open>
  The statement as the specification words it, that the unfenced input passes through
  unchanged, fails on a JSON text with white space around it: the sample text, a space,
  an object and a line feed, comes out without the space and the line feed.
\<close>

theorem unfenced_text_trimmed_counterexample:
  "stripCodeFences sampleJson = sampleJsonTrimmed \<and> stripCodeFences sampleJson \<noteq> sampleJson"
proof -
  have "stripCodeFences sampleJson = sampleJsonTrimmed"
    by (simp add: stripCodeFences_def trim_def startsWith_def fence_def fenceJson_def
          sampleJson_def sampleJsonTrimmed_def isWhiteSpace_def)
  moreover have "sampleJsonTrimmed \<noteq> sampleJson"
    by (simp add: sampleJson_def sampleJsonTrimmed_def)
  ultimately show ?thesis by simp
qed

section \<open>Planned bathroom counts\<close>


lemma weightedLoop_member:
  "weightedLoop items r = Some x \<Longrightarrow> x \<in> fst ` set items"
  by (induction items r rule: weightedLoop.induct) (auto split: if_splits)

lemma weightedRandom_member:
  "items \<noteq> [] \<Longrightarrow> weightedRandom items u \<in> fst ` set items"
  unfolding weightedRandom_def Let_def
  by (cases "weightedLoop items (u * sum_list (map snd items))")
     (auto dest: weightedLoop_member)

lemma bedrooms_drawn: "weightedRandom bedroomDist u \<in> {2, 3, 4, 5}"
  using weightedRandom_member [of bedroomDist u] by (auto simp: bedroomDist_def)

lemma bathroomsFor_half_steps: "bathroomsFor beds u = of_int (Math_round (beds * (0.75 + u * 0.5) * 2)) * 0.5"
  by (simp add: bathroomsFor_def)

lemma bathroomsFor_positive:
  assumes "1 \<le> beds" "0 \<le> u"
  shows "0 < bathroomsFor beds u"
proof -
  have "0 \<le> beds * u" using assms by simp
  then have "3 / 2 \<le> beds * (0.75 + u * 0.5) * 2"
    using assms(1) by (simp add: algebra_simps)
  then have "2 \<le> beds * (0.75 + u * 0.5) * 2 + 1 / 2" by simp
  then have "2 \<le> Math_round (beds * (0.75 + u * 0.5) * 2)"
    unfolding Math_round_def by (simp add: le_floor_iff)
  then show ?thesis
    by (simp add: bathroomsFor_def)
qed

lemma planLoop_member:
  "req \<in> set (planLoop rnd i m) \<Longrightarrow> \<exists>j. req = planRequest (rnd (3 * j)) (rnd (3 * j + 1)) (rnd (3 * j + 2))"
  by (induction m arbitrary: i) auto

text \<open>
  C9. With draws from 0, included, to 1, excluded: for every bedroom count that is a
  positive integer the derived bathroom count is positive and a whole multiple of one
  half; and every request of \<open>createPropertyRequests\<close> has 2, 3, 4 or 5 bedrooms
  and a bathroom count that is positive and a whole multiple of one half. Numbers are
  reals here. Both properties hold of the doubles of the program as well: rounding
  gives an integer, halving it is exact, and rounding is monotone.
\<close>

theorem bathrooms_positive_half_steps:
  assumes "\<forall>k. 0 \<le> rnd k \<and> rnd k < 1"
  shows "(beds \<in> \<int> \<and> 0 < beds \<and> 0 \<le> u \<and> u < 1
            \<longrightarrow> 0 < bathroomsFor beds u \<and> (\<exists>m::int. bathroomsFor beds u = of_int m * 0.5))
       \<and> (req \<in> set (createPropertyRequests rnd n)
            \<longrightarrow> req_bedrooms req \<in> {2, 3, 4, 5} \<and> 0 < req_bathrooms req
                \<and> (\<exists>m::int. req_bathrooms req = of_int m * 0.5))"
proof (intro conjI impI)
  assume a: "beds \<in> \<int> \<and> 0 < beds \<and> 0 \<le> u \<and> u < 1"
  then obtain z :: int where "beds = of_int z" by (auto elim: Ints_cases)
  with a have "1 \<le> beds" by auto
  with a show "0 < bathroomsFor beds u" by (simp add: bathroomsFor_positive)
  show "\<exists>m::int. bathroomsFor beds u = of_int m * 0.5"
    using bathroomsFor_half_steps by blast
next
  assume "req \<in> set (createPropertyRequests rnd n)"
  then obtain j where req: "req = planRequest (rnd (3 * j)) (rnd (3 * j + 1)) (rnd (3 * j + 2))"
    unfolding createPropertyRequests_def by (blast dest: planLoop_member)
  let ?beds = "weightedRandom bedroomDist (rnd (3 * j + 1))"
  have beds: "req_bedrooms req = ?beds"
    and baths: "req_bathrooms req = bathroomsFor ?beds (rnd (3 * j + 2))"
    by (simp_all add: req planRequest_def Let_def)
  have mem: "?beds \<in> {2, 3, 4, 5}" by (rule bedrooms_drawn)
  then have "1 \<le> ?beds" by auto
  moreover have "0 \<le> rnd (3 * j + 2)" using assms by simp
  ultimately have "0 < bathroomsFor ?beds (rnd (3 * j + 2))" by (rule bathroomsFor_positive)
  then show "req_bedrooms req \<in> {2, 3, 4, 5}" "0 < req_bathrooms req"
    "\<exists>m::int. req_bathrooms req = of_int m * 0.5"
    using mem beds baths bathroomsFor_half_steps by auto
qed

lemma halfDraws_range: "\<forall>k. 0 \<le> halfDraws k \<and> halfDraws k < 1"
  by (simp add: halfDraws_def)

theorem bathrooms_positive_half_steps_witness:
  "(\<forall>k. 0 \<le> halfDraws k \<and> halfDraws k < 1)
   \<and> (3::real) \<in> \<int> \<and> bathroomsFor 3 (9 / 10) = 7 / 2 \<and> 0 < bathroomsFor 3 (9 / 10)
   \<and> map req_bathrooms (createPropertyRequests halfDraws 2) = [3, 3]
   \<and> 0 < req_bathrooms (createPropertyRequests halfDraws 2 ! 1)"
proof -
  have v: "bathroomsFor 3 (9 / 10) = 7 / 2"
    by (simp add: bathroomsFor_def Math_round_def)
  have p: "map req_bathrooms (createPropertyRequests halfDraws 2) = [3, 3]"
    by (simp add: createPropertyRequests_def numeral_2_eq_2 planRequest_def halfDraws_def
          weightedRandom_def bedroomDist_def propertyTypes_def bathroomsFor_def Math_round_def)
  have "0 < bathroomsFor 3 (9 / 10)"
    using bathrooms_positive_half_steps [OF halfDraws_range, of 3 "9 / 10"] by simp
  moreover have "length (createPropertyRequests halfDraws 2) = 2"
    using p by (metis length_map length_Cons list.size(3) numeral_2_eq_2)
  then have "createPropertyRequests halfDraws 2 ! 1 \<in> set (createPropertyRequests halfDraws 2)"
    by simp
  then have "0 < req_bathrooms (createPropertyRequests halfDraws 2 ! 1)"
    using bathrooms_positive_half_steps [OF halfDraws_range, where n = 2] by blast
  ultimately show ?thesis
    using halfDraws_range v p by simp
qed

section \<open>The slice loop\<close>

lemma sliceCount_0: "sliceCount 0 b = 0"
  by (cases b) (simp_all add: sliceCount_def)

lemma sliceCount_step:
  assumes "0 < b" "0 < d"
  shows "sliceCount d b = Suc (sliceCount (d - b) b)"
proof (cases "b \<le> d")
  case True
  have e: "d + b - 1 = (d - 1) + b"
    using assms by linarith
  have "(d + b - 1) div b = ((d - 1) + b) div b"
    by (simp only: e)
  also have "\<dots> = (d - 1) div b + 1"
    using assms(1) by simp
  finally have l: "(d + b - 1) div b = Suc ((d - 1) div b)"
    by simp
  have "d - b + b - 1 = d - 1"
    using True by linarith
  then show ?thesis
    by (simp only: sliceCount_def l)
next
  case False
  then have z: "d - b = 0" by simp
  have "b \<le> d + b - 1" "d + b - 1 < 2 * b"
    using False assms by linarith+
  then have "(d + b - 1) div b = 1"
    by (simp add: div_nat_eqI)
  then show ?thesis
    by (simp only: z sliceCount_0) (simp add: sliceCount_def)
qed

lemma idx_batchStep: "idx (batchStep internal b reqs st) = idx st + b"
  by (simp add: batchStep_def Let_def split: sum.splits)

lemma batchLoop_funpow:
  assumes "0 < b"
  shows "batchLoop internal b reqs st
          = Some ((batchStep internal b reqs ^^ sliceCount (length reqs - idx st) b) st)"
proof (induction "length reqs - idx st" arbitrary: st rule: less_induct)
  case less
  show ?case
  proof (cases "idx st < length reqs")
    case False
    then show ?thesis
      by (subst batchLoop.simps) (simp add: sliceCount_0)
  next
    case True
    let ?st' = "batchStep internal b reqs st"
    have "length reqs - idx ?st' < length reqs - idx st"
      using True assms by (simp add: idx_batchStep)
    from less [OF this]
    have "batchLoop internal b reqs ?st'
          = Some ((batchStep internal b reqs ^^ sliceCount (length reqs - idx st - b) b) ?st')"
      by (simp add: idx_batchStep)
    moreover have "sliceCount (length reqs - idx st) b
          = Suc (sliceCount (length reqs - idx st - b) b)"
      using True assms by (intro sliceCount_step) simp_all
    ultimately show ?thesis
      using True by (subst batchLoop.simps) (simp add: funpow_swap1)
  qed
qed

lemma batchStep_funpow:
  "(batchStep internal b reqs ^^ m) \<lparr> idx = 0, results = [], trace = [], calls = k \<rparr>
    = \<lparr> idx = m * b,
        results = concat (map (\<lambda>j. sliceRecords internal (k + j) (nthSlice b reqs j)) [0..<m]),
        trace = concat (map (\<lambda>j. sliceEvents internal (k + j) (nthSlice b reqs j)) [0..<m]),
        calls = k + m \<rparr>"
  (is "?run m = ?state m")
proof (induction m)
  case 0
  then show ?case by simp
next
  case (Suc m)
  have sl: "slice (m * b) (m * b + b) reqs = nthSlice b reqs m"
    by (simp add: slice_def nthSlice_def)
  have "?run (Suc m) = batchStep internal b reqs (?run m)"
    by simp
  also have "\<dots> = batchStep internal b reqs (?state m)"
    by (simp only: Suc)
  also have "\<dots> = ?state (Suc m)"
    by (simp add: batchStep_def sl sliceRecords_def sliceEvents_def split: sum.splits)
  finally show ?case .
qed

lemma generatePropertyBatch_run:
  assumes "0 < b"
  shows "generatePropertyBatch internal k reqs b
    = Some (concat (map (\<lambda>j. sliceRecords internal (k + j) (nthSlice b reqs j))
                      [0..<sliceCount (length reqs) b]),
            concat (map (\<lambda>j. sliceEvents internal (k + j) (nthSlice b reqs j))
                      [0..<sliceCount (length reqs) b]),
            k + sliceCount (length reqs) b)"
  unfolding generatePropertyBatch_def
  by (simp add: batchLoop_funpow [OF assms] batchStep_funpow)

lemma apiCalls_append: "apiCalls (es @ fs) = apiCalls es @ apiCalls fs"
  by (induction es rule: apiCalls.induct) auto

lemma apiCalls_sliceEvents: "apiCalls (sliceEvents internal k batch) = [batch]"
  by (simp add: sliceEvents_def split: sum.splits)

lemma apiCalls_concat:
  "apiCalls (concat (map (\<lambda>j. sliceEvents internal (f j) (g j)) js)) = map g js"
  by (induction js) (simp_all add: apiCalls_append apiCalls_sliceEvents)

lemma concat_nthSlice: "concat (map (nthSlice b xs) [0..<m]) = take (m * b) xs"
proof (induction m)
  case 0
  then show ?case by simp
next
  case (Suc m)
  have "concat (map (nthSlice b xs) [0..<Suc m])
          = concat (map (nthSlice b xs) [0..<m]) @ nthSlice b xs m"
    by simp
  also have "\<dots> = take (m * b) xs @ take b (drop (m * b) xs)"
    by (simp only: Suc nthSlice_def)
  also have "\<dots> = take (m * b + b) xs"
    by (simp only: take_add)
  finally show ?case
    by (simp add: add.commute)
qed

lemma sliceCount_covers:
  assumes "0 < b"
  shows "n \<le> sliceCount n b * b"
proof -
  have "(n + b - 1) div b * b + (n + b - 1) mod b = n + b - 1"
    by simp
  moreover have "(n + b - 1) mod b < b"
    using assms by simp
  ultimately show ?thesis
    unfolding sliceCount_def by linarith
qed

lemma sliceCount_last:
  assumes "0 < b" "j < sliceCount n b"
  shows "j * b < n"
proof -
  let ?q = "(n + b - 1) div b"
  from assms(2) have "Suc j \<le> ?q"
    by (simp add: sliceCount_def)
  then have "Suc j * b \<le> ?q * b"
    by (rule mult_le_mono1)
  also have "\<dots> \<le> n + b - 1"
    by (rule div_times_less_eq_dividend)
  finally have "j * b + b \<le> n + b - 1"
    by simp
  then show ?thesis
    using assms(1) by linarith
qed

lemma sliceCount_ceiling:
  assumes "0 < b"
  shows "int (sliceCount n b) = \<lceil>real n / real b\<rceil>"
proof -
  let ?q = "sliceCount n b"
  have up: "real n / real b \<le> real ?q"
  proof -
    have "real n \<le> real (?q * b)"
      using sliceCount_covers [OF assms, of n] by (simp only: of_nat_le_iff)
    then show ?thesis
      using assms by (simp add: pos_divide_le_eq)
  qed
  have low: "real ?q - 1 < real n / real b"
  proof (cases "?q = 0")
    case True
    have "0 \<le> real n / real b" by simp
    then have "- 1 < real n / real b" by linarith
    with True show ?thesis by simp
  next
    case False
    then have "(?q - 1) * b < n"
      using assms by (intro sliceCount_last) simp_all
    then have "real ((?q - 1) * b) < real n"
      by (simp only: of_nat_less_iff)
    moreover have "real (?q - 1) = real ?q - 1"
      using False by (simp add: of_nat_diff)
    ultimately have "(real ?q - 1) * real b < real n"
      by simp
    then show ?thesis
      using assms by (simp add: pos_less_divide_eq)
  qed
  have "\<lceil>real n / real b\<rceil> = int ?q"
    using low up by (intro ceiling_unique) simp_all
  then show ?thesis by simp
qed

lemma length_nthSlice_full:
  assumes "0 < b" "Suc j < sliceCount (length xs) b"
  shows "length (nthSlice b xs j) = b"
proof -
  have "Suc j * b < length xs"
    using assms by (rule sliceCount_last)
  then show ?thesis
    by (simp add: nthSlice_def)
qed

lemma length_nthSlice_last:
  assumes "0 < b" "j < sliceCount (length xs) b"
  shows "0 < length (nthSlice b xs j) \<and> length (nthSlice b xs j) \<le> b"
proof -
  have "j * b < length xs"
    using assms by (rule sliceCount_last)
  then show ?thesis
    using assms(1) by (simp add: nthSlice_def)
qed

lemma concat_all_slices:
  assumes "0 < b"
  shows "concat (map (nthSlice b xs) [0..<sliceCount (length xs) b]) = xs"
  using sliceCount_covers [OF assms, of "length xs"] by (simp add: concat_nthSlice)

text \<open>
  C6. With a positive batch size, \<open>generatePropertyBatch\<close> returns after one call of
  \<open>generatePropertyBatchInternal\<close> per slice: the number of calls is the length of the
  list divided by the batch size and rounded up, the \<open>j\<close>-th call is made on the
  \<open>j\<close>-th run of \<open>batchSize\<close> consecutive requests, and the records returned are
  what these calls returned on these slices, in order (nothing for a call that threw).
  Put end to end the slices are the list, every slice but the last has \<open>batchSize\<close>
  requests, and the last has at least one and at most \<open>batchSize\<close>. The batch size is
  a natural number here (the caller passes the result of \<open>parseInt\<close>).
\<close>

theorem batch_slicing:
  assumes "0 < batchSize"
  shows "\<exists>records trace k' sent.
           generatePropertyBatch internal k requests batchSize = Some (records, trace, k')
         \<and> sent = apiCalls trace
         \<and> sent = map (nthSlice batchSize requests) [0..<sliceCount (length requests) batchSize]
         \<and> records = concat (map (\<lambda>j. sliceRecords internal (k + j) (sent ! j)) [0..<length sent])
         \<and> k' = k + length sent
         \<and> int (length sent) = \<lceil>real (length requests) / real batchSize\<rceil>
         \<and> concat sent = requests
         \<and> (\<forall>j. Suc j < length sent \<longrightarrow> length (sent ! j) = batchSize)
         \<and> (sent \<noteq> [] \<longrightarrow> 0 < length (last sent) \<and> length (last sent) \<le> batchSize)"
proof -
  let ?n = "sliceCount (length requests) batchSize"
  let ?sent = "map (nthSlice batchSize requests) [0..<?n]"
  let ?trace = "concat (map (\<lambda>j. sliceEvents internal (k + j) (nthSlice batchSize requests j)) [0..<?n])"
  let ?records = "concat (map (\<lambda>j. sliceRecords internal (k + j) (nthSlice batchSize requests j)) [0..<?n])"
  have run: "generatePropertyBatch internal k requests batchSize = Some (?records, ?trace, k + ?n)"
    using assms by (rule generatePropertyBatch_run)
  have sent: "?sent = apiCalls ?trace"
    by (simp only: apiCalls_concat)
  have len_sent: "length ?sent = ?n"
    by simp
  have m: "map (\<lambda>j. sliceRecords internal (k + j) (?sent ! j)) [0..<?n]
          = map (\<lambda>j. sliceRecords internal (k + j) (nthSlice batchSize requests j)) [0..<?n]"
    by (rule map_cong) simp_all
  have recs: "?records
          = concat (map (\<lambda>j. sliceRecords internal (k + j) (?sent ! j)) [0..<length ?sent])"
    by (simp only: len_sent m)
  have calls: "k + ?n = k + length ?sent"
    by simp
  have count: "int (length ?sent) = \<lceil>real (length requests) / real batchSize\<rceil>"
    using sliceCount_ceiling [OF assms] by simp
  have whole: "concat ?sent = requests"
    using assms by (rule concat_all_slices)
  have full: "\<forall>j. Suc j < length ?sent \<longrightarrow> length (?sent ! j) = batchSize"
    using assms by (simp add: length_nthSlice_full)
  have lst: "?sent \<noteq> [] \<longrightarrow> 0 < length (last ?sent) \<and> length (last ?sent) \<le> batchSize"
  proof
    assume ne: "?sent \<noteq> []"
    then have pos: "0 < ?n" by simp
    then have "last ?sent = nthSlice batchSize requests (?n - 1)"
      using ne by (simp add: last_map)
    moreover have "?n - 1 < ?n" using pos by simp
    ultimately show "0 < length (last ?sent) \<and> length (last ?sent) \<le> batchSize"
      using length_nthSlice_last [OF assms, of "?n - 1" requests] by simp
  qed
  from run sent recs calls count whole full lst show ?thesis
    by blast
qed

lemma pausedAfterEveryCall_slice:
  "internal k batch = Inr rs
    \<Longrightarrow> pausedAfterEveryCall (sliceEvents internal k batch @ es) = pausedAfterEveryCall es"
  by (simp add: sliceEvents_def)

lemma pausedAfterEveryCall_slices:
  "\<forall>j \<in> set js. \<exists>rs. internal (f j) (g j) = Inr rs
    \<Longrightarrow> pausedAfterEveryCall (concat (map (\<lambda>j. sliceEvents internal (f j) (g j)) js))"
proof (induction js)
  case Nil
  then show ?case by simp
next
  case (Cons j js)
  then obtain rs where "internal (f j) (g j) = Inr rs" by auto
  with Cons show ?case
    by (simp add: pausedAfterEveryCall_slice)
qed

text \<open>
  C7, as the code has it. With a positive batch size the trace of
  \<open>generatePropertyBatch\<close> is, slice after slice: the wait for the rate limiter, the
  call, and the pause of one second when the call returned, with records or with none.
  A call that throws is followed by no pause: the \<open>continue\<close> of the \<open>catch\<close>
  skips line 86. So when every call returns, every call is followed by the pause.
\<close>

theorem pause_follows_returned_calls:
  assumes "0 < batchSize"
  shows "\<exists>records trace k'.
           generatePropertyBatch internal k requests batchSize = Some (records, trace, k')
         \<and> trace = concat (map (\<lambda>j. sliceEvents internal (k + j) (nthSlice batchSize requests j))
                             [0..<sliceCount (length requests) batchSize])
         \<and> ((\<forall>j < sliceCount (length requests) batchSize.
                \<exists>rs. internal (k + j) (nthSlice batchSize requests j) = Inr rs)
              \<longrightarrow> pausedAfterEveryCall trace)"
proof -
  let ?n = "sliceCount (length requests) batchSize"
  let ?trace = "concat (map (\<lambda>j. sliceEvents internal (k + j) (nthSlice batchSize requests j)) [0..<?n])"
  have "generatePropertyBatch internal k requests batchSize
      = Some (concat (map (\<lambda>j. sliceRecords internal (k + j) (nthSlice batchSize requests j)) [0..<?n]),
              ?trace, k + ?n)"
    using assms by (rule generatePropertyBatch_run)
  moreover have "(\<forall>j < ?n. \<exists>rs. internal (k + j) (nthSlice batchSize requests j) = Inr rs)
              \<longrightarrow> pausedAfterEveryCall ?trace"
    by (auto intro: pausedAfterEveryCall_slices)
  ultimately show ?thesis
    by blast
qed

lemma length_planLoop: "length (planLoop rnd i m) = m"
  by (induction m arbitrary: i) auto

lemma length_createPropertyRequests: "length (createPropertyRequests rnd n) = n"
  by (simp add: createPropertyRequests_def length_planLoop)

lemma upt_3: "[0..<3] = [0, 1, 2]"
  by (simp add: numeral_3_eq_3)

lemma sliceCount_5_2: "sliceCount 5 2 = 3" and sliceCount_3_3: "sliceCount 3 3 = 1"
  and sliceCount_2_1: "sliceCount 2 1 = 2"
  by (simp_all add: sliceCount_def)

theorem batch_slicing_witness:
  "(\<exists>records trace k'.
      generatePropertyBatch echoCompletions 0 sampleRequests 2 = Some (records, trace, k')
      \<and> map length (apiCalls trace) = [2, 2, 1] \<and> concat (apiCalls trace) = sampleRequests
      \<and> records = replicate 5 sampleProperty \<and> k' = 3)
   \<and> (\<exists>records trace k'.
      generatePropertyBatch echoCompletions 0 (take 3 sampleRequests) 3 = Some (records, trace, k')
      \<and> map length (apiCalls trace) = [3] \<and> records = replicate 3 sampleProperty \<and> k' = 1)"
proof
  have len: "length sampleRequests = 5"
    by (simp add: sampleRequests_def length_createPropertyRequests)
  have pos2: "0 < (2::nat)" by simp
  from batch_slicing [OF pos2, of echoCompletions 0 sampleRequests]
  obtain records trace k' where
    run: "generatePropertyBatch echoCompletions 0 sampleRequests 2 = Some (records, trace, k')"
    and sent: "apiCalls trace
        = map (nthSlice 2 sampleRequests) [0..<sliceCount (length sampleRequests) 2]"
    and recs: "records = concat (map (\<lambda>j. sliceRecords echoCompletions (0 + j) (apiCalls trace ! j))
                                  [0..<length (apiCalls trace)])"
    and calls: "k' = 0 + length (apiCalls trace)"
    and whole: "concat (apiCalls trace) = sampleRequests"
    by blast
  have lens: "map length (apiCalls trace) = [2, 2, 1]"
    by (simp add: sent len sliceCount_5_2 upt_3 nthSlice_def)
  then have n: "length (apiCalls trace) = 3"
    by (metis length_map length_Cons list.size(3) numeral_3_eq_3)
  from lens n have each: "length (apiCalls trace ! 0) = 2" "length (apiCalls trace ! 1) = 2"
    "length (apiCalls trace ! 2) = 1"
    by (metis nth_map nth_Cons_0 zero_less_numeral,
        metis nth_map nth_Cons_0 nth_Cons_Suc One_nat_def one_less_numeral_iff semiring_norm(77),
        metis nth_map nth_Cons_0 nth_Cons_Suc numeral_2_eq_2 lessI numeral_3_eq_3)
  have "records = replicate 5 sampleProperty"
    unfolding recs n upt_3
    using each
    by (simp add: sliceRecords_def echoCompletions_def map_replicate_const numeral_eq_Suc)
  with run lens whole calls n show "\<exists>records trace k'.
      generatePropertyBatch echoCompletions 0 sampleRequests 2 = Some (records, trace, k')
      \<and> map length (apiCalls trace) = [2, 2, 1] \<and> concat (apiCalls trace) = sampleRequests
      \<and> records = replicate 5 sampleProperty \<and> k' = 3"
    by simp
  have pos3: "0 < (3::nat)" by simp
  from batch_slicing [OF pos3, of echoCompletions 0 "take 3 sampleRequests"]
  obtain records trace k' where
    run: "generatePropertyBatch echoCompletions 0 (take 3 sampleRequests) 3
            = Some (records, trace, k')"
    and sent: "apiCalls trace = map (nthSlice 3 (take 3 sampleRequests))
        [0..<sliceCount (length (take 3 sampleRequests)) 3]"
    and recs: "records = concat (map (\<lambda>j. sliceRecords echoCompletions (0 + j) (apiCalls trace ! j))
                                  [0..<length (apiCalls trace)])"
    and calls: "k' = 0 + length (apiCalls trace)"
    by blast
  have one: "apiCalls trace = [take 3 sampleRequests]"
    by (simp add: sent len sliceCount_3_3 nthSlice_def)
  have "records = replicate 3 sampleProperty"
    unfolding recs one
    by (simp add: sliceRecords_def echoCompletions_def map_replicate_const len)
  with run one calls show "\<exists>records trace k'.
      generatePropertyBatch echoCompletions 0 (take 3 sampleRequests) 3 = Some (records, trace, k')
      \<and> map length (apiCalls trace) = [3] \<and> records = replicate 3 sampleProperty \<and> k' = 1"
    by (simp add: len)
qed

theorem pause_follows_returned_calls_witness:
  "\<exists>records trace k'.
      generatePropertyBatch alwaysEmpty 0 sampleRequests 2 = Some (records, trace, k')
      \<and> records = [] \<and> length trace = 9 \<and> pausedAfterEveryCall trace"
proof -
  have len: "length sampleRequests = 5"
    by (simp add: sampleRequests_def length_createPropertyRequests)
  have pos2: "0 < (2::nat)" by simp
  from pause_follows_returned_calls [OF pos2, of alwaysEmpty 0 sampleRequests]
  obtain records trace k' where
    r: "generatePropertyBatch alwaysEmpty 0 sampleRequests 2 = Some (records, trace, k')"
    and t: "trace = concat (map (\<lambda>j. sliceEvents alwaysEmpty (0 + j) (nthSlice 2 sampleRequests j))
                             [0..<sliceCount (length sampleRequests) 2])"
    and p: "(\<forall>j < sliceCount (length sampleRequests) 2.
                \<exists>rs. alwaysEmpty (0 + j) (nthSlice 2 sampleRequests j) = Inr rs)
              \<longrightarrow> pausedAfterEveryCall trace"
    by blast
  from p have "pausedAfterEveryCall trace"
    by (simp add: alwaysEmpty_def)
  moreover from t have "length trace = 9"
    by (simp add: len sliceCount_5_2 upt_3 sliceEvents_def alwaysEmpty_def)
  moreover from r have "records = []"
    using generatePropertyBatch_run [of 2 alwaysEmpty 0 sampleRequests]
    by (simp add: len sliceCount_5_2 upt_3 sliceRecords_def alwaysEmpty_def)
  ultimately show ?thesis
    using r by simp
qed

text \<open>
  The statement as the specification words it, a pause after every slice whether it
  succeeded or failed, fails when the calls throw: two slices, no pause between them.
\<close>

lemma two_throwing_slices:
  "generatePropertyBatch alwaysThrows 0 [a, b] 1
     = Some ([], [EnforceRateLimit, ApiCall [a], EnforceRateLimit, ApiCall [b]], 2)"
proof -
  have two: "[0..<2] = [0, Suc 0]"
    by (simp add: numeral_2_eq_2)
  have n: "sliceCount (length [a, b]) 1 = 2"
    by (simp add: sliceCount_def)
  have "generatePropertyBatch alwaysThrows 0 [a, b] 1
    = Some (concat (map (\<lambda>j. sliceRecords alwaysThrows (0 + j) (nthSlice 1 [a, b] j))
                      [0..<sliceCount (length [a, b]) 1]),
            concat (map (\<lambda>j. sliceEvents alwaysThrows (0 + j) (nthSlice 1 [a, b] j))
                      [0..<sliceCount (length [a, b]) 1]),
            0 + sliceCount (length [a, b]) 1)"
    by (rule generatePropertyBatch_run) simp
  then show ?thesis
    unfolding n two
    by (simp add: sliceRecords_def sliceEvents_def alwaysThrows_def nthSlice_def)
qed

theorem pause_skipped_counterexample:
  "generatePropertyBatch alwaysThrows 0 (take 2 sampleRequests) 1
     = Some ([], [EnforceRateLimit, ApiCall [sampleRequests ! 0],
                  EnforceRateLimit, ApiCall [sampleRequests ! 1]], 2)
   \<and> \<not> pausedAfterEveryCall [EnforceRateLimit, ApiCall [sampleRequests ! 0],
                              EnforceRateLimit, ApiCall [sampleRequests ! 1]]"
proof -
  have len: "length sampleRequests = 5"
    by (simp add: sampleRequests_def length_createPropertyRequests)
  have "take 2 sampleRequests = [sampleRequests ! 0, sampleRequests ! 1]"
    by (simp add: numeral_2_eq_2 take_Suc_conv_app_nth len)
  with two_throwing_slices [of "sampleRequests ! 0" "sampleRequests ! 1"] show ?thesis
    by simp
qed

section \<open>The run of the orchestrator\<close>

lemma batchLoop_zero:
  assumes "batchLoop internal b reqs st = Some y"
  shows "b = 0 \<longrightarrow> length reqs \<le> idx st"
proof (rule batchLoop.raw_induct
    [where P = "\<lambda>internal b reqs st y. b = 0 \<longrightarrow> length reqs \<le> idx st", OF _ assms])
  fix f :: "completions \<Rightarrow> nat \<Rightarrow> PropertyGenerationRequest list \<Rightarrow> BatchLoopState
    \<Rightarrow> BatchLoopState option"
  fix internal b reqs st y
  assume IH: "\<And>internal b reqs st y. f internal b reqs st = Some y
                \<Longrightarrow> b = 0 \<longrightarrow> length reqs \<le> idx st"
    and body: "(if idx st < length reqs
               then f internal b reqs (batchStep internal b reqs st) else Some st) = Some y"
  show "b = 0 \<longrightarrow> length reqs \<le> idx st"
  proof (cases "idx st < length reqs")
    case True
    with body have "f internal b reqs (batchStep internal b reqs st) = Some y" by simp
    from IH [OF this] show ?thesis by (simp add: idx_batchStep)
  next
    case False
    then show ?thesis by simp
  qed
qed

lemma generatePropertyBatch_zero:
  assumes "reqs \<noteq> []"
  shows "generatePropertyBatch internal k reqs 0 = None"
proof (cases "batchLoop internal 0 reqs \<lparr> idx = 0, results = [], trace = [], calls = k \<rparr>")
  case None
  then show ?thesis by (simp add: generatePropertyBatch_def)
next
  case (Some y)
  from batchLoop_zero [OF this] assms show ?thesis by simp
qed

lemma processChunk_total:
  assumes "0 < b"
  shows "\<exists>st'. processChunk env b reqs c st = Some st'"
  unfolding processChunk_def Let_def
  by (simp add: generatePropertyBatch_run [OF assms] split: prod.splits)

lemma chunkLoop_total:
  assumes "0 < b"
  shows "\<exists>st'. chunkLoop env b reqs cs st = Some st'"
proof (induction cs arbitrary: st)
  case Nil
  then show ?case by simp
next
  case (Cons c cs)
  from processChunk_total [OF assms] obtain st1 where "processChunk env b reqs c st = Some st1"
    by blast
  with Cons show ?case by simp
qed

text \<open>
  C8, as the code has it. With a positive batch size every run ends, in exactly one of
  four ways: the constructor throws because the credential is missing; the first count
  query throws; the store already holds properties and the operator does not answer y
  at the prompt, and the run returns before planning, without a summary; or the run
  reaches the summary. So the summary is reached exactly when the credential is there,
  the count query works, and the store is empty or the operator answers y.
\<close>

theorem run_reaches_summary:
  assumes "0 < batchSize"
  shows "\<exists>r. main env totalProperties batchSize store0 = Some r
          \<and> (r = Inl MissingApiKey \<longleftrightarrow> \<not> apiKeyPresent env)
          \<and> (r = Inl PrismaError \<longleftrightarrow> apiKeyPresent env \<and> env_countThrows env)
          \<and> (r = Inr AbortedByUser \<longleftrightarrow>
                apiKeyPresent env \<and> \<not> env_countThrows env \<and> tbl_property store0 \<noteq> []
                \<and> \<not> answersYes (env_promptAnswer env))
          \<and> ((\<exists>st. r = Inr (Summary st)) \<longleftrightarrow>
                apiKeyPresent env \<and> \<not> env_countThrows env
                \<and> (tbl_property store0 = [] \<or> answersYes (env_promptAnswer env)))"
proof (cases "apiKeyPresent env")
  case False
  then show ?thesis
    by (simp add: main_def newOrchestrator_def)
next
  case key: True
  show ?thesis
  proof (cases "env_countThrows env")
    case True
    with key show ?thesis
      by (simp add: main_def newOrchestrator_def generateAllData_def)
  next
    case cnt: False
    show ?thesis
    proof (cases "tbl_property store0 \<noteq> [] \<and> \<not> answersYes (env_promptAnswer env)")
      case True
      with key cnt show ?thesis
        by (simp add: main_def newOrchestrator_def generateAllData_def)
    next
      case False
      let ?reqs = "createPropertyRequests (env_random env) totalProperties"
      let ?chunks = "nat \<lceil>real (length ?reqs) / real chunkSize\<rceil>"
      from chunkLoop_total [OF assms] obtain st where
        "chunkLoop env batchSize ?reqs [0..<?chunks]
          (startState \<lparr> totalRequested = totalProperties, totalGenerated = 0, totalInserted = 0,
                currentChunk = 0, totalChunks = 0, failedBatches = [] \<rparr> ?chunks store0) = Some st"
        by blast
      with key cnt False show ?thesis
        by (auto simp: main_def newOrchestrator_def generateAllData_def Let_def)
    qed
  qed
qed

lemma sample_stored_rows: "tbl_property sampleStored \<noteq> []"
  by (simp add: sampleStored_def insertSingleProperty_def sample_valid findUnique_def
        transaction_def emptyStore_def Let_def)

lemma quiet_key: "apiKeyPresent quietEnv"
  by (simp add: apiKeyPresent_def quietEnv_def)

theorem run_reaches_summary_witness:
  "(0::nat) < 2
   \<and> main quietEnv 5 2 sampleStored = Some (Inr AbortedByUser)
   \<and> summaryProgress (main quietEnv 5 2 emptyStore) \<noteq> None"
proof -
  have pos: "(0::nat) < 2" by simp
  from run_reaches_summary [OF pos, of quietEnv 5 sampleStored]
  have a: "main quietEnv 5 2 sampleStored = Some (Inr AbortedByUser)"
    using quiet_key sample_stored_rows
    by (auto simp: quietEnv_def answersYes_def)
  from run_reaches_summary [OF pos, of quietEnv 5 emptyStore]
  obtain st where "main quietEnv 5 2 emptyStore = Some (Inr (Summary st))"
    using quiet_key by (auto simp: quietEnv_def emptyStore_def)
  then have "summaryProgress (main quietEnv 5 2 emptyStore) \<noteq> None"
    by (simp add: summaryProgress_def)
  with pos a show ?thesis by simp
qed

lemma chunks_of_one: "nat \<lceil>1 / real chunkSize\<rceil> = Suc 0"
proof -
  have "int (sliceCount 1 chunkSize) = \<lceil>real 1 / real chunkSize\<rceil>"
    by (rule sliceCount_ceiling) (simp add: chunkSize_def)
  moreover have "sliceCount 1 chunkSize = 1"
    by (simp add: sliceCount_def chunkSize_def)
  ultimately show ?thesis by simp
qed

text \<open>
  The statement as the specification words it, that only a setup error keeps a run from
  its summary, fails in two ways: with a credential and a working store, an operator who
  answers n ends the run before planning; and with a batch size of 0 the slice loop
  never advances, so the run never ends.
\<close>

lemma processChunk_diverges:
  assumes "reqs \<noteq> []"
  shows "processChunk env 0 reqs 0 st = None"
proof -
  have ne: "slice (0 * chunkSize) (min (0 * chunkSize + chunkSize) (length reqs)) reqs \<noteq> []"
    using assms by (simp add: slice_def chunkSize_def)
  show ?thesis
    unfolding processChunk_def Let_def generatePropertyBatch_zero [OF ne] by simp
qed

theorem run_without_summary_counterexample:
  "apiKeyPresent quietEnv
   \<and> main quietEnv 5 2 sampleStored = Some (Inr AbortedByUser)
   \<and> main quietEnv 1 0 emptyStore = None"
proof (intro conjI)
  show "apiKeyPresent quietEnv" by (rule quiet_key)
  show "main quietEnv 5 2 sampleStored = Some (Inr AbortedByUser)"
    using quiet_key sample_stored_rows
    by (simp add: main_def newOrchestrator_def generateAllData_def)
       (simp add: quietEnv_def answersYes_def)
  have len: "length (createPropertyRequests rnd (Suc 0)) = Suc 0" for rnd
    by (simp add: length_createPropertyRequests)
  then have ne: "createPropertyRequests rnd (Suc 0) \<noteq> []" for rnd
    by (metis length_0_conv nat.distinct(1))
  have "generateAllData quietEnv 1 0 emptyStore p0 = None" for p0
  proof -
    have "env_countThrows quietEnv = False" "tbl_property emptyStore = []"
      by (simp_all add: quietEnv_def emptyStore_def)
    then show ?thesis
      by (simp add: generateAllData_def Let_def len chunks_of_one processChunk_diverges [OF ne])
  qed
  then show "main quietEnv 1 0 emptyStore = None"
    using quiet_key by (simp add: main_def newOrchestrator_def)
qed

lemma inserted_le_length:
  "fst (snd (insertProperties faults k store propertiesData)) \<le> length propertiesData"
proof -
  have "fst (snd (insertProperties faults k store propertiesData))
          = length (filter id (outcomes faults k store propertiesData))"
    unfolding insertProperties_def by (subst insertLoop_outcomes) simp
  also have "\<dots> \<le> length (outcomes faults k store propertiesData)"
    by (rule length_filter_le)
  finally show ?thesis by (simp add: length_outcomes)
qed

lemma processChunk_cases:
  assumes "processChunk env b reqs c st = Some st'"
  obtains ps tr k' where
    "generatePropertyBatch (env_completions env) (run_apiCalls st)
       (slice (c * chunkSize) (min (c * chunkSize + chunkSize) (length reqs)) reqs) b
      = Some (ps, tr, k')"
    and "totalGenerated (run_progress st')
          = totalGenerated (run_progress st) + length ps"
    and "totalInserted (run_progress st')
          = totalInserted (run_progress st)
            + (if ps = [] then 0
               else fst (snd (insertProperties (env_faults env) (run_dbCalls st) (run_store st) ps)))"
proof (cases "generatePropertyBatch (env_completions env) (run_apiCalls st)
       (slice (c * chunkSize) (min (c * chunkSize + chunkSize) (length reqs)) reqs) b")
  case None
  with assms show ?thesis
    by (simp add: processChunk_def Let_def)
next
  case (Some r)
  obtain ps tr k' where r: "r = (ps, tr, k')"
    by (cases r)
  obtain s' n d' where ins:
    "insertProperties (env_faults env) (run_dbCalls st) (run_store st) ps = (s', n, d')"
    by (cases "insertProperties (env_faults env) (run_dbCalls st) (run_store st) ps")
  from assms Some r ins have
    "totalGenerated (run_progress st') = totalGenerated (run_progress st) + length ps"
    "totalInserted (run_progress st') = totalInserted (run_progress st) + (if ps = [] then 0 else n)"
    by (auto simp: processChunk_def Let_def split: if_splits)
  with Some r ins that show ?thesis
    by simp
qed

lemma processChunk_counters:
  assumes "processChunk env b reqs c st = Some st'"
    and "totalInserted (run_progress st) \<le> totalGenerated (run_progress st)"
  shows "totalInserted (run_progress st') \<le> totalGenerated (run_progress st')"
proof -
  from assms(1) obtain ps tr k' where
    "generatePropertyBatch (env_completions env) (run_apiCalls st)
       (slice (c * chunkSize) (min (c * chunkSize + chunkSize) (length reqs)) reqs) b
      = Some (ps, tr, k')"
    and g: "totalGenerated (run_progress st') = totalGenerated (run_progress st) + length ps"
    and i: "totalInserted (run_progress st')
          = totalInserted (run_progress st)
            + (if ps = [] then 0
               else fst (snd (insertProperties (env_faults env) (run_dbCalls st) (run_store st) ps)))"
    by (rule processChunk_cases)
  have "fst (snd (insertProperties (env_faults env) (run_dbCalls st) (run_store st) ps)) \<le> length ps"
    by (rule inserted_le_length)
  with g i assms(2) show ?thesis
    by (simp split: if_splits)
qed

lemma chunkLoop_counters:
  assumes "chunkLoop env b reqs cs st = Some st'"
    and "totalInserted (run_progress st) \<le> totalGenerated (run_progress st)"
  shows "totalInserted (run_progress st') \<le> totalGenerated (run_progress st')"
  using assms
proof (induction cs arbitrary: st)
  case Nil
  then show ?case by simp
next
  case (Cons c cs)
  then obtain st1 where s1: "processChunk env b reqs c st = Some st1"
    and rest: "chunkLoop env b reqs cs st1 = Some st'"
    by (auto split: option.splits)
  from processChunk_counters [OF s1 Cons.prems(2)] Cons.IH [OF rest] show ?case
    by blast
qed

lemma length_concat_le:
  assumes "\<And>j. j \<in> set js \<Longrightarrow> length (f j) \<le> length (g j)"
  shows "length (concat (map f js)) \<le> length (concat (map g js))"
  using assms by (induction js) (auto intro: add_mono)

lemma generated_le_requested:
  assumes "0 < b" "boundedCompletions internal"
    and "generatePropertyBatch internal k reqs b = Some (ps, tr, k')"
  shows "length ps \<le> length reqs"
proof -
  let ?n = "sliceCount (length reqs) b"
  from assms(3) generatePropertyBatch_run [OF assms(1), of internal k reqs]
  have "ps = concat (map (\<lambda>j. sliceRecords internal (k + j) (nthSlice b reqs j)) [0..<?n])"
    by simp
  moreover have "length (sliceRecords internal (k + j) (nthSlice b reqs j))
          \<le> length (nthSlice b reqs j)" for j
    using assms(2) by (auto simp: sliceRecords_def boundedCompletions_def split: sum.splits)
  ultimately have "length ps \<le> length (concat (map (nthSlice b reqs) [0..<?n]))"
    by (simp add: length_concat_le)
  then show ?thesis
    by (simp add: concat_all_slices [OF assms(1)])
qed

lemma processChunk_generated:
  assumes "0 < b" "boundedCompletions (env_completions env)"
    and "processChunk env b reqs c st = Some st'"
    and "totalGenerated (run_progress st) \<le> min (c * chunkSize) (length reqs)"
  shows "totalGenerated (run_progress st') \<le> min (Suc c * chunkSize) (length reqs)"
proof -
  let ?chunk = "slice (c * chunkSize) (min (c * chunkSize + chunkSize) (length reqs)) reqs"
  from assms(3) obtain ps tr k' where
    gen: "generatePropertyBatch (env_completions env) (run_apiCalls st) ?chunk b = Some (ps, tr, k')"
    and g: "totalGenerated (run_progress st') = totalGenerated (run_progress st) + length ps"
    by (rule processChunk_cases)
  have "length ps \<le> length ?chunk"
    using assms(1,2) gen by (rule generated_le_requested)
  also have "\<dots> = min (c * chunkSize + chunkSize) (length reqs) - c * chunkSize"
    by (simp add: slice_def)
  finally show ?thesis
    using g assms(4) by (auto simp: min_def split: if_splits)
qed

lemma chunkLoop_append:
  "chunkLoop env b reqs (cs @ ds) st
    = (case chunkLoop env b reqs cs st of
         None \<Rightarrow> None
       | Some st1 \<Rightarrow> chunkLoop env b reqs ds st1)"
  by (induction cs arbitrary: st) (auto split: option.splits)

lemma chunkLoop_generated:
  assumes "0 < b" "boundedCompletions (env_completions env)"
    and "chunkLoop env b reqs [0..<c] st = Some st'"
    and "totalGenerated (run_progress st) = 0"
  shows "totalGenerated (run_progress st') \<le> min (c * chunkSize) (length reqs)"
  using assms(3)
proof (induction c arbitrary: st')
  case 0
  then show ?case using assms(4) by simp
next
  case (Suc c)
  then obtain st1 where prefix: "chunkLoop env b reqs [0..<c] st = Some st1"
    and last: "processChunk env b reqs c st1 = Some st'"
    by (auto simp: chunkLoop_append split: option.splits)
  from Suc.IH [OF prefix] processChunk_generated [OF assms(1,2) last] show ?case
    by blast
qed

text \<open>
  C10, as the code has it. \<open>insertProperties\<close> returns a count that is at most the
  length of its input. From counters at zero, after any number \<open>c\<close> of chunks the
  inserted total is at most the generated total (and with a positive batch size the
  chunks do end). The generated total is at most the number of requests planned for
  these chunks when no completion holds more records than its slice asked for: nothing
  in the code compares the two numbers.
\<close>

theorem progress_counters:
  assumes "totalGenerated progress0 = 0" and "totalInserted progress0 = 0"
  shows "fst (snd (insertProperties faults k store propertiesData)) \<le> length propertiesData
       \<and> (0 < batchSize \<longrightarrow>
            (\<exists>st. chunkLoop env batchSize requests [0..<c] (startState progress0 chunks store0)
                    = Some st))
       \<and> (chunkLoop env batchSize requests [0..<c] (startState progress0 chunks store0) = Some st
            \<longrightarrow> totalInserted (run_progress st) \<le> totalGenerated (run_progress st)
               \<and> (0 < batchSize \<and> boundedCompletions (env_completions env)
                    \<longrightarrow> totalGenerated (run_progress st) \<le> min (c * chunkSize) (length requests)))"
proof (intro conjI impI)
  show "fst (snd (insertProperties faults k store propertiesData)) \<le> length propertiesData"
    by (rule inserted_le_length)
next
  assume "0 < batchSize"
  then show "\<exists>st. chunkLoop env batchSize requests [0..<c] (startState progress0 chunks store0)
                    = Some st"
    by (rule chunkLoop_total)
next
  assume run: "chunkLoop env batchSize requests [0..<c] (startState progress0 chunks store0)
                = Some st"
  have "totalInserted (run_progress (startState progress0 chunks store0))
          \<le> totalGenerated (run_progress (startState progress0 chunks store0))"
    using assms by (simp add: startState_def)
  with run show "totalInserted (run_progress st) \<le> totalGenerated (run_progress st)"
    by (rule chunkLoop_counters)
next
  assume run: "chunkLoop env batchSize requests [0..<c] (startState progress0 chunks store0)
                = Some st"
    and b: "0 < batchSize \<and> boundedCompletions (env_completions env)"
  have "totalGenerated (run_progress (startState progress0 chunks store0)) = 0"
    using assms by (simp add: startState_def)
  with b run show "totalGenerated (run_progress st) \<le> min (c * chunkSize) (length requests)"
    by (intro chunkLoop_generated) simp_all
qed

text \<open>
  The statement as the specification words it, that the generated total never exceeds the
  number of requests planned, fails when a completion holds more records than were
  asked for: one request planned, two records generated and inserted.
\<close>

lemma processChunk_requested:
  assumes "processChunk env b reqs c st = Some st'"
  shows "totalRequested (run_progress st') = totalRequested (run_progress st)"
  using assms
  by (auto simp: processChunk_def Let_def split: option.splits prod.splits if_splits)

lemma generous_slice:
  assumes "length reqs = Suc 0"
  shows "generatePropertyBatch generousCompletions k reqs (Suc 0) = Some (ps, tr, k')
          \<Longrightarrow> ps = [sampleProperty, sampleProperty\<lparr>zpid := Some ''87654321''\<rparr>]"
proof -
  have n: "sliceCount (length reqs) (Suc 0) = Suc 0"
    by (simp add: assms sliceCount_def)
  assume "generatePropertyBatch generousCompletions k reqs (Suc 0) = Some (ps, tr, k')"
  with generatePropertyBatch_run [of "Suc 0" generousCompletions k reqs]
  show ?thesis
    by (simp add: n sliceRecords_def generousCompletions_def)
qed

lemma generous_inserted:
  "fst (snd (insertProperties (\<lambda>k. NoFault) 0 emptyStore
      [sampleProperty, sampleProperty\<lparr>zpid := Some ''87654321''\<rparr>])) = 2"
proof -
  have "outcomes (\<lambda>k. NoFault) 0 emptyStore
      [sampleProperty, sampleProperty\<lparr>zpid := Some ''87654321''\<rparr>] = [True, True]"
    by (simp add: emptyStore_def sampleProperty_def insertSingleProperty_def
        validatePropertyData_def isInteger_def findUnique_def transaction_def propertyRow_def)
  then show ?thesis
    unfolding insertProperties_def by (subst insertLoop_outcomes) simp
qed

lemma generous_progress:
  assumes "processChunk generousEnv (Suc 0) (createPropertyRequests halfDraws (Suc 0)) 0
            (startState sampleProgress (Suc 0) emptyStore) = Some st"
  shows "totalGenerated (run_progress st) = 2 \<and> totalInserted (run_progress st) = 2
         \<and> totalRequested (run_progress st) = 1"
proof -
  let ?reqs = "createPropertyRequests halfDraws (Suc 0)"
  have len: "length ?reqs = Suc 0"
    by (simp add: length_createPropertyRequests)
  have chunk: "slice (0 * chunkSize) (min (0 * chunkSize + chunkSize) (length ?reqs)) ?reqs = ?reqs"
    by (simp add: slice_def chunkSize_def len)
  from assms obtain ps tr k' where
    gen: "generatePropertyBatch (env_completions generousEnv)
            (run_apiCalls (startState sampleProgress (Suc 0) emptyStore))
            (slice (0 * chunkSize) (min (0 * chunkSize + chunkSize) (length ?reqs)) ?reqs) (Suc 0)
          = Some (ps, tr, k')"
    and g: "totalGenerated (run_progress st)
          = totalGenerated (run_progress (startState sampleProgress (Suc 0) emptyStore)) + length ps"
    and i: "totalInserted (run_progress st)
          = totalInserted (run_progress (startState sampleProgress (Suc 0) emptyStore))
            + (if ps = [] then 0
               else fst (snd (insertProperties (env_faults generousEnv)
                      (run_dbCalls (startState sampleProgress (Suc 0) emptyStore))
                      (run_store (startState sampleProgress (Suc 0) emptyStore)) ps)))"
    by (rule processChunk_cases)
  have env: "env_completions generousEnv = generousCompletions"
    "env_faults generousEnv = (\<lambda>k. NoFault)"
    by (simp_all add: generousEnv_def quietEnv_def)
  from gen have ps: "ps = [sampleProperty, sampleProperty\<lparr>zpid := Some ''87654321''\<rparr>]"
    unfolding chunk env by (rule generous_slice [OF len])
  have "totalRequested (run_progress st) = 1"
    using processChunk_requested [OF assms] by (simp add: startState_def sampleProgress_def)
  moreover have "totalGenerated (run_progress st) = 2"
    using g by (simp add: ps startState_def sampleProgress_def)
  moreover have "totalInserted (run_progress st) = 2"
    using i generous_inserted by (simp add: ps env startState_def sampleProgress_def)
  ultimately show ?thesis by simp
qed

theorem generated_exceeds_planned_counterexample:
  "length (createPropertyRequests (env_random generousEnv) 1) = 1
   \<and> map_option totalRequested (summaryProgress (main generousEnv 1 1 emptyStore)) = Some 1
   \<and> map_option totalGenerated (summaryProgress (main generousEnv 1 1 emptyStore)) = Some 2
   \<and> map_option totalInserted (summaryProgress (main generousEnv 1 1 emptyStore)) = Some 2"
proof -
  let ?reqs = "createPropertyRequests halfDraws (Suc 0)"
  have pos: "0 < Suc 0" by simp
  from processChunk_total [OF pos] obtain st where
    st: "processChunk generousEnv (Suc 0) ?reqs 0 (startState sampleProgress (Suc 0) emptyStore)
          = Some st"
    by blast
  have env: "apiKeyPresent generousEnv" "env_countThrows generousEnv = False"
    "env_random generousEnv = halfDraws"
    by (simp_all add: generousEnv_def quietEnv_def apiKeyPresent_def)
  have "tbl_property emptyStore = []"
    by (simp add: emptyStore_def)
  then have "main generousEnv 1 1 emptyStore = Some (Inr (Summary st))"
    using env st
    by (simp add: main_def newOrchestrator_def generateAllData_def Let_def
          length_createPropertyRequests chunks_of_one sampleProgress_def)
  then have "summaryProgress (main generousEnv 1 1 emptyStore) = Some (run_progress st)"
    by (simp add: summaryProgress_def)
  with generous_progress [OF st] env(3) show ?thesis
    by (simp add: length_createPropertyRequests)
qed

lemma echo_slices:
  assumes "generatePropertyBatch echoCompletions k sampleRequests 2 = Some (ps, tr, k')"
  shows "ps = replicate 5 sampleProperty"
proof -
  have len: "length sampleRequests = 5"
    by (simp add: sampleRequests_def length_createPropertyRequests)
  have pos: "0 < (2::nat)" by simp
  from assms generatePropertyBatch_run [OF pos, of echoCompletions k sampleRequests]
  have "ps = concat (map (\<lambda>j. sliceRecords echoCompletions (k + j) (nthSlice 2 sampleRequests j))
                      [0..<sliceCount (length sampleRequests) 2])"
    by simp
  then show ?thesis
    by (simp add: len sliceCount_5_2 upt_3 sliceRecords_def echoCompletions_def nthSlice_def
          map_replicate_const)
       (simp add: numeral_eq_Suc)
qed

lemma echo_inserted:
  "fst (snd (insertProperties (\<lambda>k. NoFault) 0 emptyStore (replicate 5 sampleProperty))) = 1"
proof -
  have "outcomes (\<lambda>k. NoFault) 0 emptyStore (replicate 5 sampleProperty)
          = [True, False, False, False, False]"
    by (simp add: numeral_eq_Suc emptyStore_def sampleProperty_def insertSingleProperty_def
        validatePropertyData_def isInteger_def findUnique_def transaction_def propertyRow_def)
  then show ?thesis
    unfolding insertProperties_def by (subst insertLoop_outcomes) simp
qed

lemma echo_progress:
  assumes "processChunk echoEnv 2 sampleRequests 0 (startState sampleProgress 1 emptyStore) = Some st"
  shows "totalGenerated (run_progress st) = 5 \<and> totalInserted (run_progress st) = 1"
proof -
  have len: "length sampleRequests = 5"
    by (simp add: sampleRequests_def length_createPropertyRequests)
  have chunk: "slice (0 * chunkSize) (min (0 * chunkSize + chunkSize) (length sampleRequests))
                sampleRequests = sampleRequests"
    by (simp add: slice_def chunkSize_def len)
  have env: "env_completions echoEnv = echoCompletions" "env_faults echoEnv = (\<lambda>k. NoFault)"
    by (simp_all add: echoEnv_def quietEnv_def)
  from assms obtain ps tr k' where
    gen: "generatePropertyBatch (env_completions echoEnv)
            (run_apiCalls (startState sampleProgress 1 emptyStore))
            (slice (0 * chunkSize) (min (0 * chunkSize + chunkSize) (length sampleRequests))
               sampleRequests) 2
          = Some (ps, tr, k')"
    and g: "totalGenerated (run_progress st)
          = totalGenerated (run_progress (startState sampleProgress 1 emptyStore)) + length ps"
    and i: "totalInserted (run_progress st)
          = totalInserted (run_progress (startState sampleProgress 1 emptyStore))
            + (if ps = [] then 0
               else fst (snd (insertProperties (env_faults echoEnv)
                      (run_dbCalls (startState sampleProgress 1 emptyStore))
                      (run_store (startState sampleProgress 1 emptyStore)) ps)))"
    by (rule processChunk_cases)
  from gen have ps: "ps = replicate 5 sampleProperty"
    unfolding chunk env by (rule echo_slices)
  have "totalGenerated (run_progress st) = 5"
    using g by (simp add: ps startState_def sampleProgress_def)
  moreover have "totalInserted (run_progress st) = 1"
    using i echo_inserted by (simp add: ps env startState_def sampleProgress_def)
  ultimately show ?thesis by simp
qed

theorem progress_counters_witness:
  "totalGenerated sampleProgress = 0 \<and> totalInserted sampleProgress = 0
   \<and> fst (snd (insertProperties mixedFaults 0 emptyStore mixedBatch)) = 2
   \<and> fst (snd (insertProperties mixedFaults 0 emptyStore mixedBatch)) \<le> length mixedBatch
   \<and> length sampleRequests = 5
   \<and> (\<exists>st. chunkLoop echoEnv 2 sampleRequests [0..<1] (startState sampleProgress 1 emptyStore)
              = Some st
           \<and> totalGenerated (run_progress st) = 5 \<and> totalInserted (run_progress st) = 1
           \<and> totalInserted (run_progress st) \<le> totalGenerated (run_progress st)
           \<and> totalGenerated (run_progress st) \<le> min (1 * chunkSize) (length sampleRequests))"
proof -
  have z: "totalGenerated sampleProgress = 0" "totalInserted sampleProgress = 0"
    by (simp_all add: sampleProgress_def)
  have len: "length sampleRequests = 5"
    by (simp add: sampleRequests_def length_createPropertyRequests)
  have pos: "(0::nat) < 2" by simp
  have bounded: "boundedCompletions (env_completions echoEnv)"
    by (simp add: boundedCompletions_def echoEnv_def quietEnv_def echoCompletions_def)
  have mixed: "fst (snd (insertProperties mixedFaults 0 emptyStore mixedBatch)) = 2"
    unfolding insertProperties_def by (subst insertLoop_outcomes) (simp add: mixed_outcomes)
  note pc = progress_counters [OF z, where batchSize = 2 and env = echoEnv
      and requests = sampleRequests and c = 1 and chunks = 1 and ?store0.0 = emptyStore]
  from pc [of mixedFaults 0 emptyStore mixedBatch] pos obtain st where
    st: "chunkLoop echoEnv 2 sampleRequests [0..<1] (startState sampleProgress 1 emptyStore)
          = Some st"
    by blast
  from pc [of mixedFaults 0 emptyStore mixedBatch st] st pos bounded
  have ineq: "fst (snd (insertProperties mixedFaults 0 emptyStore mixedBatch)) \<le> length mixedBatch"
    "totalInserted (run_progress st) \<le> totalGenerated (run_progress st)"
    "totalGenerated (run_progress st) \<le> min (1 * chunkSize) (length sampleRequests)"
    by blast+
  from st have "processChunk echoEnv 2 sampleRequests 0 (startState sampleProgress 1 emptyStore)
                  = Some st"
    by (simp split: option.splits)
  then have "totalGenerated (run_progress st) = 5 \<and> totalInserted (run_progress st) = 1"
    by (rule echo_progress)
  with z len mixed ineq st show ?thesis by blast
qed

end
